theory Spec2Isabelle
  imports Main "HOL-Library.AList"
begin

section \<open>JavaScript containers\<close>

text \<open>
  Both applications keep their cells in a JavaScript \<^verbatim>\<open>Map\<close>. A \<^verbatim>\<open>Map\<close> holds each
  key once and iterates in insertion order; \<^verbatim>\<open>set\<close> on a present key replaces the value
  in place and on an absent key appends an entry. It is modelled as an association list
  in insertion order, \<^verbatim>\<open>new Map(m)\<close> (a copy with the same entries in the same order)
  as the list itself, and \<^verbatim>\<open>undefined\<close> as \<open>None\<close>.
\<close>

type_synonym ('k, 'v) jsmap = "('k \<times> 'v) list"

definition map_get :: "('k, 'v) jsmap \<Rightarrow> 'k \<Rightarrow> 'v option" where
  "map_get m k = map_of m k"

definition map_has :: "('k, 'v) jsmap \<Rightarrow> 'k \<Rightarrow> bool" where
  "map_has m k = (map_of m k \<noteq> None)"

definition map_set :: "'k \<Rightarrow> 'v \<Rightarrow> ('k, 'v) jsmap \<Rightarrow> ('k, 'v) jsmap" where
  "map_set k v m = AList.update k v m"

definition map_delete :: "'k \<Rightarrow> ('k, 'v) jsmap \<Rightarrow> ('k, 'v) jsmap" where
  "map_delete k m = AList.delete k m"

text \<open>
  \<^verbatim>\<open>xs.slice(0, end)\<close>: a negative \<^verbatim>\<open>end\<close> counts from the end of the array, and the
  result is clamped to the array.
\<close>

definition js_slice0 :: "'a list \<Rightarrow> int \<Rightarrow> 'a list" where
  "js_slice0 xs e = (if e < 0 then take (nat (int (length xs) + e)) xs else take (nat e) xs)"

text \<open>\<^verbatim>\<open>xs[i]\<close>: \<^verbatim>\<open>undefined\<close> outside the array.\<close>

definition js_index :: "'a list \<Rightarrow> int \<Rightarrow> 'a option" where
  "js_index xs i = (if 0 \<le> i \<and> i < int (length xs) then Some (xs ! nat i) else None)"

text \<open>The only exception the modelled code can raise: a property read on \<^verbatim>\<open>undefined\<close>,
  or iterating \<^verbatim>\<open>undefined\<close>.\<close>

datatype error = TypeError

section \<open>The 3D builder\<close>

subsection \<open>Configuration and state\<close>

record material =
  mat_name :: string
  mat_color :: string
  mat_behavior :: "string option"

definition MATERIALS :: "material list" where
  "MATERIALS =
    [\<lparr>mat_name = ''Stone'', mat_color = ''#6b7280'', mat_behavior = None\<rparr>,
     \<lparr>mat_name = ''Grass'', mat_color = ''#22c55e'', mat_behavior = None\<rparr>,
     \<lparr>mat_name = ''Water'', mat_color = ''#0ea5e9'', mat_behavior = Some ''flows''\<rparr>,
     \<lparr>mat_name = ''Lava'', mat_color = ''#ef4444'', mat_behavior = Some ''converts_water''\<rparr>,
     \<lparr>mat_name = ''Fire'', mat_color = ''#f97316'', mat_behavior = Some ''destroys''\<rparr>,
     \<lparr>mat_name = ''Sand'', mat_color = ''#fbbf24'', mat_behavior = Some ''falls''\<rparr>,
     \<lparr>mat_name = ''Wood'', mat_color = ''#92400e'', mat_behavior = None\<rparr>,
     \<lparr>mat_name = ''Ice'', mat_color = ''#67e8f9'', mat_behavior = None\<rparr>,
     \<lparr>mat_name = ''Purple'', mat_color = ''#a855f7'', mat_behavior = None\<rparr>,
     \<lparr>mat_name = ''Pink'', mat_color = ''#ec4899'', mat_behavior = None\<rparr>,
     \<lparr>mat_name = ''White'', mat_color = ''#f5f5f5'', mat_behavior = None\<rparr>,
     \<lparr>mat_name = ''Black'', mat_color = ''#1f2937'', mat_behavior = None\<rparr>]"

text \<open>\<^verbatim>\<open>CONFIG.maxHeight\<close>.\<close>

definition maxHeight :: int where
  "maxHeight = 20"

text \<open>
  \<^verbatim>\<open>getBlockKey(x, y, z)\<close> is the template string \<^verbatim>\<open>`${x},${y},${z}`\<close>. On integer
  coordinates it is an injective encoding of the triple, and \<^verbatim>\<open>loadState\<close> decodes it
  again with \<^verbatim>\<open>key.split(',').map(Number)\<close>; the key is kept as the triple.
\<close>

type_synonym blockKey = "int \<times> int \<times> int"

definition getBlockKey :: "int \<Rightarrow> int \<Rightarrow> int \<Rightarrow> blockKey" where
  "getBlockKey x y z = (x, y, z)"

text \<open>A render handle: the mesh's colour and its \<^verbatim>\<open>userData\<close>. Its world position,
  shadows and scale animation are rendering only.\<close>

record mesh =
  mesh_color :: string
  userData_q :: int
  userData_r :: int
  userData_y :: int
  userData_materialIndex :: nat

text \<open>The fields of \<^verbatim>\<open>STATE\<close> that the editing core reads or writes, and the module-level
  \<^verbatim>\<open>blockMeshes\<close>. The history fields carry the suffix \<open>_3d\<close>: the 2D editor has fields of
  the same names.\<close>

record state3 =
  currentMaterial :: nat
  blocks :: "(blockKey, nat) jsmap"
  blockMeshes :: "(blockKey, mesh) jsmap"
  hoveredBlock :: "blockKey option"
  isPlacing :: bool
  history_3d :: "(blockKey, nat) jsmap list"
  historyIndex_3d :: int

subsection \<open>Block management\<close>

text \<open>
  \<^verbatim>\<open>addBlock\<close> writes the data map first, then reads \<^verbatim>\<open>MATERIALS[materialIndex].color\<close>,
  which raises a TypeError for an index outside the palette, and only then registers the
  mesh. The \<^verbatim>\<open>animate\<close> flag chooses animation and sound and nothing else.
\<close>

definition addBlock :: "int \<Rightarrow> int \<Rightarrow> int \<Rightarrow> nat \<Rightarrow> bool \<Rightarrow> state3 \<Rightarrow> (error + bool) \<times> state3" where
  "addBlock q r y materialIndex animate s =
    (let key = getBlockKey q r y in
     if map_has (blocks s) key then (Inr False, s)
     else
       let s1 = s\<lparr>blocks := map_set key materialIndex (blocks s)\<rparr> in
       if materialIndex < length MATERIALS then
         let m = \<lparr>mesh_color = mat_color (MATERIALS ! materialIndex),
                  userData_q = q, userData_r = r, userData_y = y,
                  userData_materialIndex = materialIndex\<rparr>
         in (Inr True, s1\<lparr>blockMeshes := map_set key m (blockMeshes s1)\<rparr>)
       else (Inl TypeError, s1))"

definition removeBlock :: "int \<Rightarrow> int \<Rightarrow> int \<Rightarrow> bool \<Rightarrow> state3 \<Rightarrow> bool \<times> state3" where
  "removeBlock q r y animate s =
    (let key = getBlockKey q r y in
     if \<not> map_has (blocks s) key then (False, s)
     else
       let s1 = s\<lparr>blocks := map_delete key (blocks s)\<rparr> in
       case map_get (blockMeshes s1) key of
         Some m \<Rightarrow> (True, s1\<lparr>blockMeshes := map_delete key (blockMeshes s1)\<rparr>)
       | None \<Rightarrow> (True, s1))"

subsection \<open>History\<close>

definition saveState_3d :: "state3 \<Rightarrow> state3" where
  "saveState_3d s =
    (let s1 = (if historyIndex_3d s < int (length (history_3d s)) - 1
               then s\<lparr>history_3d := js_slice0 (history_3d s) (historyIndex_3d s + 1)\<rparr>
               else s);
         snapshot = blocks s1;
         s2 = s1\<lparr>history_3d := history_3d s1 @ [snapshot]\<rparr>;
         s3 = s2\<lparr>historyIndex_3d := int (length (history_3d s2)) - 1\<rparr>
     in if length (history_3d s3) > 50
        then s3\<lparr>history_3d := tl (history_3d s3), historyIndex_3d := historyIndex_3d s3 - 1\<rparr>
        else s3)"

text \<open>The second loop of \<^verbatim>\<open>loadState\<close>: one \<^verbatim>\<open>addBlock\<close> per snapshot entry, in the
  snapshot's order; an exception leaves the loop.\<close>

fun loadState_loop :: "(blockKey \<times> nat) list \<Rightarrow> state3 \<Rightarrow> (error + unit) \<times> state3" where
  "loadState_loop [] s = (Inr (), s)"
| "loadState_loop ((key, materialIndex) # rest) s =
    (case key of (q, r, y) \<Rightarrow>
      (case addBlock q r y materialIndex False s of
         (Inl e, s') \<Rightarrow> (Inl e, s')
       | (Inr _, s') \<Rightarrow> loadState_loop rest s'))"

text \<open>\<^verbatim>\<open>loadState(snapshot)\<close>; called with \<^verbatim>\<open>undefined\<close> (\<open>None\<close>) it clears both maps
  and then fails to iterate.\<close>

definition loadState :: "(blockKey, nat) jsmap option \<Rightarrow> state3 \<Rightarrow> (error + unit) \<times> state3" where
  "loadState snapshot s =
    (let s1 = s\<lparr>blockMeshes := []\<rparr>;
         s2 = s1\<lparr>blocks := []\<rparr>
     in case snapshot of
          None \<Rightarrow> (Inl TypeError, s2)
        | Some entries \<Rightarrow> loadState_loop entries s2)"

definition undo_3d :: "state3 \<Rightarrow> (error + unit) \<times> state3" where
  "undo_3d s =
    (if historyIndex_3d s \<le> 0 then (Inr (), s)
     else
       let s1 = s\<lparr>historyIndex_3d := historyIndex_3d s - 1\<rparr>
       in loadState (js_index (history_3d s1) (historyIndex_3d s1)) s1)"

definition redo_3d :: "state3 \<Rightarrow> (error + unit) \<times> state3" where
  "redo_3d s =
    (if historyIndex_3d s \<ge> int (length (history_3d s)) - 1 then (Inr (), s)
     else
       let s1 = s\<lparr>historyIndex_3d := historyIndex_3d s + 1\<rparr>
       in loadState (js_index (history_3d s1) (historyIndex_3d s1)) s1)"

subsection \<open>Editing\<close>

definition placeBlock :: "state3 \<Rightarrow> (error + unit) \<times> state3" where
  "placeBlock s =
    (case hoveredBlock s of
       None \<Rightarrow> (Inr (), s)
     | Some (q, r, y) \<Rightarrow>
         let placeY = (if y = -1 then 0 else y) in
         if placeY \<ge> 0 \<and> placeY < maxHeight then
           (case addBlock q r placeY (currentMaterial s) True s of
              (Inl e, s') \<Rightarrow> (Inl e, s')
            | (Inr True, s') \<Rightarrow> (Inr (), saveState_3d s')
            | (Inr False, s') \<Rightarrow> (Inr (), s'))
         else (Inr (), s))"

text \<open>\<^verbatim>\<open>removeBlockAtCursor\<close>: the ray cast is the renderer's; its first hit among the
  block meshes, if any, is the argument.\<close>

definition removeBlockAtCursor :: "mesh option \<Rightarrow> state3 \<Rightarrow> state3" where
  "removeBlockAtCursor hit s =
    (case hit of
       None \<Rightarrow> s
     | Some block \<Rightarrow>
         (case removeBlock (userData_q block) (userData_r block) (userData_y block) True s of
            (True, s') \<Rightarrow> saveState_3d s'
          | (False, s') \<Rightarrow> s'))"

text \<open>The initial value of \<^verbatim>\<open>STATE\<close> and of \<^verbatim>\<open>blockMeshes\<close>.\<close>

definition STATE_3d :: state3 where
  "STATE_3d = \<lparr>currentMaterial = 0, blocks = [], blockMeshes = [], hoveredBlock = None,
     isPlacing = False, history_3d = [], historyIndex_3d = -1\<rparr>"

text \<open>\<^verbatim>\<open>createStarterBlocks\<close>: nine Stone blocks through \<^verbatim>\<open>addBlock\<close>, then the first
  snapshot. (The three numbers of a position are passed as \<^verbatim>\<open>q, r, y\<close> in this order.)\<close>

fun addBlocks_forEach :: "(int \<times> int \<times> int) list \<Rightarrow> state3 \<Rightarrow> (error + unit) \<times> state3" where
  "addBlocks_forEach [] s = (Inr (), s)"
| "addBlocks_forEach ((x, y, z) # rest) s =
    (case addBlock x y z 0 True s of
       (Inl e, s') \<Rightarrow> (Inl e, s')
     | (Inr _, s') \<Rightarrow> addBlocks_forEach rest s')"

definition createStarterBlocks :: "state3 \<Rightarrow> (error + unit) \<times> state3" where
  "createStarterBlocks s =
    (let positions = [(0, 0, 0), (1, 0, 0), (-1, 0, 0), (0, 0, 1), (0, 0, -1),
                      (1, 0, 1), (-1, 0, -1), (1, 0, -1), (-1, 0, 1)]
     in case addBlocks_forEach positions s of
          (Inl e, s') \<Rightarrow> (Inl e, s')
        | (Inr _, s') \<Rightarrow> (Inr (), saveState_3d s'))"

section \<open>The 2D editor\<close>

subsection \<open>Configuration and state\<close>

text \<open>
  Cell keys are the template string \<^verbatim>\<open>`${col},${row}`\<close>, kept as the pair. A colour is a
  string; \<^verbatim>\<open>hexCells.get(key)\<close> is \<open>None\<close> for an empty cell. \<open>gridSize\<close> is
  \<^verbatim>\<open>CONFIG.gridSize\<close>, which the settings dialog can change.
\<close>

type_synonym hexKey = "int \<times> int"

record state2 =
  currentTool :: string
  currentColor :: string
  isDrawing :: bool
  isPanning :: bool
  gridSize :: int
  hexCells :: "(hexKey, string) jsmap"
  history_2d :: "(hexKey, string) jsmap list"
  historyIndex_2d :: int

text \<open>\<^verbatim>\<open>CONFIG.maxHistorySteps\<close>.\<close>

definition maxHistorySteps :: nat where
  "maxHistorySteps = 50"

definition STATE_2d :: state2 where
  "STATE_2d = \<lparr>currentTool = ''draw'', currentColor = ''#6366f1'', isDrawing = False,
     isPanning = False, gridSize = 20, hexCells = [], history_2d = [], historyIndex_2d = -1\<rparr>"

subsection \<open>Hexagon grid\<close>

text \<open>\<^verbatim>\<open>col % 2 !== 0\<close> holds for the odd columns, negative ones included (where the
  JavaScript remainder is \<open>-1\<close> and \<open>mod\<close> gives \<open>1\<close>).\<close>

definition getNeighbors :: "int \<Rightarrow> int \<Rightarrow> int \<Rightarrow> hexKey list" where
  "getNeighbors gs col row =
    (let isOddCol = (col mod 2 \<noteq> 0);
         neighbors =
           [(col + 1, if isOddCol then row else row - 1),
            (col + 1, if isOddCol then row + 1 else row),
            (col - 1, if isOddCol then row else row - 1),
            (col - 1, if isOddCol then row + 1 else row),
            (col, row - 1),
            (col, row + 1)]
     in filter (\<lambda>n. fst n \<ge> 0 \<and> fst n < gs \<and> snd n \<ge> 0 \<and> snd n < gs) neighbors)"

subsection \<open>Drawing tools\<close>

text \<open>
  The \<^verbatim>\<open>while\<close> loop of \<^verbatim>\<open>floodFill\<close> over its four variables: the cell map, the
  \<^verbatim>\<open>visited\<close> set, the stack (an array: \<^verbatim>\<open>pop\<close> takes the last element, \<^verbatim>\<open>push\<close>
  appends) and the counter \<^verbatim>\<open>filled\<close>. It returns their final values. A falsy
  \<^verbatim>\<open>fillColor\<close> (the empty string) deletes instead of setting.
\<close>

function floodFill_loop ::
  "int \<Rightarrow> string option \<Rightarrow> string \<Rightarrow> (hexKey, string) jsmap \<Rightarrow> hexKey set \<Rightarrow> hexKey list \<Rightarrow> nat
    \<Rightarrow> (hexKey, string) jsmap \<times> hexKey set \<times> nat" where
  "floodFill_loop gs targetColor fillColor cells visited stack filled =
    (if stack \<noteq> [] \<and> filled < 1000 then
       let key = last stack;
           stack1 = butlast stack
       in if key \<in> visited then floodFill_loop gs targetColor fillColor cells visited stack1 filled
          else
            let visited1 = insert key visited;
                cellColor = map_get cells key
            in if cellColor \<noteq> targetColor
               then floodFill_loop gs targetColor fillColor cells visited1 stack1 filled
               else
                 let cells1 = (if fillColor \<noteq> [] then map_set key fillColor cells
                               else map_delete key cells);
                     stack2 = stack1 @ filter (\<lambda>n. n \<notin> visited1) (getNeighbors gs (fst key) (snd key))
                 in floodFill_loop gs targetColor fillColor cells1 visited1 stack2 (filled + 1)
     else (cells, visited, filled))"
  by pat_completeness auto
termination
  by (relation "measures [\<lambda>(gs, t, f, cells, visited, stack, filled). 1000 - filled,
                          \<lambda>(gs, t, f, cells, visited, stack, filled). length stack]") auto

definition floodFill :: "int \<Rightarrow> int \<Rightarrow> string option \<Rightarrow> string \<Rightarrow> state2 \<Rightarrow> state2" where
  "floodFill startCol startRow targetColor fillColor s =
    (if targetColor = Some fillColor then s
     else s\<lparr>hexCells :=
       fst (floodFill_loop (gridSize s) targetColor fillColor (hexCells s) {} [(startCol, startRow)] 0)\<rparr>)"

text \<open>
  \<^verbatim>\<open>drawAtPosition(x, y)\<close> first resolves the pixel to a cell with \<^verbatim>\<open>hexGrid.pixelToHex\<close>,
  which is floating-point arithmetic on the pan offset, the zoom and \<^verbatim>\<open>Math.sqrt(3)\<close>; the
  resolved cell \<open>hex\<close> is the argument here.
\<close>

definition drawAtPosition :: "hexKey \<Rightarrow> state2 \<Rightarrow> state2" where
  "drawAtPosition hex s =
    (case hex of (col, row) \<Rightarrow>
      if col < 0 \<or> col \<ge> gridSize s \<or> row < 0 \<or> row \<ge> gridSize s then s
      else
        let key = (col, row);
            currentCellColor = map_get (hexCells s) key
        in if currentTool s = ''draw'' then
             (if currentCellColor \<noteq> Some (currentColor s)
              then s\<lparr>hexCells := map_set key (currentColor s) (hexCells s)\<rparr>
              else s)
           else if currentTool s = ''erase'' then
             (if map_has (hexCells s) key
              then s\<lparr>hexCells := map_delete key (hexCells s)\<rparr>
              else s)
           else if currentTool s = ''fill'' then
             floodFill col row currentCellColor (currentColor s) s
           else s)"

subsection \<open>History\<close>

definition saveState_2d :: "state2 \<Rightarrow> state2" where
  "saveState_2d s =
    (let s1 = (if historyIndex_2d s < int (length (history_2d s)) - 1
               then s\<lparr>history_2d := js_slice0 (history_2d s) (historyIndex_2d s + 1)\<rparr>
               else s);
         snapshot = hexCells s1;
         s2 = s1\<lparr>history_2d := history_2d s1 @ [snapshot]\<rparr>
     in if length (history_2d s2) > maxHistorySteps
        then s2\<lparr>history_2d := tl (history_2d s2)\<rparr>
        else s2\<lparr>historyIndex_2d := historyIndex_2d s2 + 1\<rparr>)"

text \<open>\<^verbatim>\<open>new Map(undefined)\<close> is the empty map, so an index outside the history would load
  an empty store.\<close>

definition new_Map :: "('k, 'v) jsmap option \<Rightarrow> ('k, 'v) jsmap" where
  "new_Map m = (case m of None \<Rightarrow> [] | Some entries \<Rightarrow> entries)"

definition undo_2d :: "state2 \<Rightarrow> state2" where
  "undo_2d s =
    (if historyIndex_2d s > 0 then
       let s1 = s\<lparr>historyIndex_2d := historyIndex_2d s - 1\<rparr>
       in s1\<lparr>hexCells := new_Map (js_index (history_2d s1) (historyIndex_2d s1))\<rparr>
     else s)"

definition redo_2d :: "state2 \<Rightarrow> state2" where
  "redo_2d s =
    (if historyIndex_2d s < int (length (history_2d s)) - 1 then
       let s1 = s\<lparr>historyIndex_2d := historyIndex_2d s + 1\<rparr>
       in s1\<lparr>hexCells := new_Map (js_index (history_2d s1) (historyIndex_2d s1))\<rparr>
     else s)"

subsection \<open>Mouse events\<close>

text \<open>\<^verbatim>\<open>handleMouseDown(e)\<close>, from the event's \<^verbatim>\<open>button\<close> and \<^verbatim>\<open>altKey\<close> and the cell its
  canvas coordinates resolve to. Panning state other than the flag is rendering only.\<close>

definition handleMouseDown :: "int \<Rightarrow> bool \<Rightarrow> hexKey \<Rightarrow> state2 \<Rightarrow> state2" where
  "handleMouseDown button altKey hex s =
    (if button = 1 \<or> (button = 0 \<and> altKey) then s\<lparr>isPanning := True\<rparr>
     else if button = 0 then
       let s1 = s\<lparr>isDrawing := True\<rparr>;
           s2 = saveState_2d s1
       in drawAtPosition hex s2
     else s)"

text \<open>\<^verbatim>\<open>handleMouseMove\<close> with the cell under the pointer: while drawing, the tool is applied
  again (no snapshot); panning and the hover highlight are rendering only.\<close>

definition handleMouseMove :: "hexKey \<Rightarrow> state2 \<Rightarrow> state2" where
  "handleMouseMove hex s =
    (if isPanning s then s
     else if isDrawing s then drawAtPosition hex s
     else s)"

definition handleMouseUp :: "state2 \<Rightarrow> state2" where
  "handleMouseUp s = s\<lparr>isDrawing := False, isPanning := False\<rparr>"

text \<open>\<^verbatim>\<open>init\<close>: of the modelled fields it changes only the history, by its
  \<^verbatim>\<open>saveState()\<close>.\<close>

definition init_2d :: "state2 \<Rightarrow> state2" where
  "init_2d s = saveState_2d s"

section \<open>Auxiliary notions\<close>

text \<open>The key set of a map.\<close>

definition keySet :: "('k, 'v) jsmap \<Rightarrow> 'k set" where
  "keySet m = fst ` set m"

text \<open>The data map and the render-handle map of the 3D builder hold the same keys.\<close>

definition meshes_in_sync :: "state3 \<Rightarrow> bool" where
  "meshes_in_sync s = (keySet (blocks s) = keySet (blockMeshes s))"

text \<open>A run of \<^verbatim>\<open>saveState\<close> calls, the store holding the next element of the list at each
  call: whatever edits happen between two records, this is what the history sees.\<close>

fun record_all_3d :: "(blockKey, nat) jsmap list \<Rightarrow> state3 \<Rightarrow> state3" where
  "record_all_3d [] s = s"
| "record_all_3d (b # bs) s = record_all_3d bs (saveState_3d (s\<lparr>blocks := b\<rparr>))"

fun record_all_2d :: "(hexKey, string) jsmap list \<Rightarrow> state2 \<Rightarrow> state2" where
  "record_all_2d [] s = s"
| "record_all_2d (c # cs) s = record_all_2d cs (saveState_2d (s\<lparr>hexCells := c\<rparr>))"

text \<open>
  Well-formed history of the 3D builder: a snapshot is a \<^verbatim>\<open>Map\<close> (its keys are distinct)
  of palette indices; the index is inside the list and the snapshot there is the live
  store. A settled state also has the index on the last snapshot, as after an edit.
\<close>

definition snapshot_ok :: "(blockKey, nat) jsmap \<Rightarrow> bool" where
  "snapshot_ok snap = (distinct (map fst snap) \<and> list_all (\<lambda>e. snd e < length MATERIALS) snap)"

definition history_ok_3d :: "state3 \<Rightarrow> bool" where
  "history_ok_3d s =
    (0 \<le> historyIndex_3d s \<and> historyIndex_3d s < int (length (history_3d s))
     \<and> js_index (history_3d s) (historyIndex_3d s) = Some (blocks s)
     \<and> list_all snapshot_ok (history_3d s))"

definition settled_3d :: "state3 \<Rightarrow> bool" where
  "settled_3d s = (history_ok_3d s \<and> historyIndex_3d s = int (length (history_3d s)) - 1)"

text \<open>
  An edit of the 3D builder, as the event handlers perform it: a left click places the
  selected material at the hovered cell (both set by earlier events), a right click
  removes the block the ray hits.
\<close>

datatype edit_3d = Place "blockKey option" nat | Remove "mesh option"

fun apply_edit_3d :: "edit_3d \<Rightarrow> state3 \<Rightarrow> state3" where
  "apply_edit_3d (Place hovered materialIndex) s =
     snd (placeBlock (s\<lparr>hoveredBlock := hovered, currentMaterial := materialIndex\<rparr>))"
| "apply_edit_3d (Remove hit) s = removeBlockAtCursor hit s"

fun edit_ok :: "edit_3d \<Rightarrow> bool" where
  "edit_ok (Place hovered materialIndex) = (materialIndex < length MATERIALS)"
| "edit_ok (Remove hit) = True"

text \<open>
  Connection through cells of the target colour: a path is a non-empty list of cells, each
  one among \<^verbatim>\<open>getNeighbors\<close> of the one before; a target path from the start to \<open>k\<close> runs
  over cells that all hold the target payload.
\<close>

fun hex_path :: "int \<Rightarrow> hexKey list \<Rightarrow> bool" where
  "hex_path gs [] = False"
| "hex_path gs [c] = True"
| "hex_path gs (c # d # p) = (d \<in> set (getNeighbors gs (fst c) (snd c)) \<and> hex_path gs (d # p))"

definition target_path ::
  "int \<Rightarrow> (hexKey, string) jsmap \<Rightarrow> string option \<Rightarrow> hexKey \<Rightarrow> hexKey \<Rightarrow> hexKey list \<Rightarrow> bool" where
  "target_path gs cells targetColor start k p =
    (hex_path gs p \<and> hd p = start \<and> last p = k \<and> list_all (\<lambda>c. map_get cells c = targetColor) p)"

text \<open>What \<^verbatim>\<open>floodFill\<close> leaves in a cell it fills: the colour, or nothing for a falsy one.\<close>

definition fill_value :: "string \<Rightarrow> string option" where
  "fill_value fillColor = (if fillColor \<noteq> [] then Some fillColor else None)"

text \<open>The invariant of the fill loop; \<open>F\<close> is the set of cells filled so far, \<open>c0\<close> the
  store at entry.\<close>

definition fill_inv ::
  "int \<Rightarrow> (hexKey, string) jsmap \<Rightarrow> string option \<Rightarrow> string \<Rightarrow> hexKey \<Rightarrow> hexKey set
    \<Rightarrow> (hexKey, string) jsmap \<Rightarrow> nat \<Rightarrow> bool" where
  "fill_inv gs c0 tc fc start F cells filled =
    (finite F \<and> card F = filled \<and> filled \<le> 1000
     \<and> (\<forall>k. map_get cells k = (if k \<in> F then fill_value fc else map_get c0 k))
     \<and> (\<forall>k. k \<in> F \<longrightarrow> map_get c0 k = tc \<and> (\<exists>p. target_path gs c0 tc start k p)))"

definition fill_example :: state2 where
  "fill_example = STATE_2d\<lparr>gridSize := 3,
     hexCells := [((0, 0), ''#000000''), ((1, 0), ''#000000''), ((2, 2), ''#000000'')]\<rparr>"

text \<open>The 2D scenario of the specification: the editor is initialised with the colour
  \<^verbatim>\<open>#ff0000\<close> selected and the draw tool, and the left button is pressed and released
  on cell \<open>(0, 0)\<close>.\<close>

definition drawn_2d :: state2 where
  "drawn_2d =
    handleMouseUp (handleMouseDown 0 False (0, 0) (init_2d (STATE_2d\<lparr>currentColor := ''#ff0000''\<rparr>)))"

section \<open>Facts about the containers\<close>

lemma keySet_map_set: "keySet (map_set k v m) = insert k (keySet m)"
  by (simp add: keySet_def map_set_def dom_update)

lemma keySet_map_delete: "keySet (map_delete k m) = keySet m - {k}"
  by (simp add: keySet_def map_delete_def AList.delete_eq) auto

lemma map_has_keySet: "map_has m k = (k \<in> keySet m)"
  by (simp add: map_has_def keySet_def map_of_eq_None_iff)

lemma map_get_Some_has: "map_get m k = Some v \<Longrightarrow> map_has m k"
  by (simp add: map_get_def map_has_def)

lemma count_distinct_key:
  "distinct (map fst m) \<Longrightarrow> map_of m k = Some v \<Longrightarrow> length (filter (\<lambda>e. fst e = k) m) = 1"
proof (induction m)
  case Nil
  then show ?case by simp
next
  case (Cons e m)
  show ?case
  proof (cases "fst e = k")
    case True
    with Cons.prems have "k \<notin> fst ` set m" by auto
    then have "filter (\<lambda>e. fst e = k) m = []" by (auto simp: filter_empty_conv)
    with True show ?thesis by simp
  next
    case False
    with Cons show ?thesis by (cases e) auto
  qed
qed

lemma keySet_Nil: "keySet [] = {}" by (simp add: keySet_def)

lemma map_set_absent: "\<not> map_has m k \<Longrightarrow> map_set k v m = m @ [(k, v)]"
  unfolding map_has_def map_set_def
  by (induction m) (auto split: if_splits)

lemma map_delete_shorter: "map_has m k \<Longrightarrow> length (map_delete k m) < length m"
  unfolding map_has_def map_delete_def AList.delete_eq
  by (induction m) (auto simp: less_Suc_eq_le split: if_splits)

lemma js_index_Some:
  "0 \<le> i \<Longrightarrow> i < int (length xs) \<Longrightarrow> js_index xs i = Some (xs ! nat i)"
  by (simp add: js_index_def)

lemma js_slice0_length: "length (js_slice0 xs e) \<le> length xs"
  by (auto simp: js_slice0_def)

lemma js_slice0_prefix:
  "- 1 \<le> i \<Longrightarrow> i < int (length xs) - 1 \<Longrightarrow> length (js_slice0 xs (i + 1)) = nat (i + 1)"
  by (simp add: js_slice0_def)

lemma nat_pred: "nat (int n - 1) = n - 1"
  by (cases n) simp_all

lemma list_all_take: "list_all P xs \<Longrightarrow> list_all P (take n xs)"
  by (auto simp: list_all_iff dest: in_set_takeD)

lemma list_all_tl: "list_all P xs \<Longrightarrow> list_all P (tl xs)"
  by (cases xs) simp_all

lemma list_all_js_slice0: "list_all P xs \<Longrightarrow> list_all P (js_slice0 xs e)"
  by (simp add: js_slice0_def list_all_take)

lemma last_tl_snoc: "n < length xs \<Longrightarrow> last (tl (xs @ [x])) = x"
  by (cases xs) simp_all

lemma drop_tl_snoc:
  "length h = 50 \<Longrightarrow> drop n (tl (h @ [b]) @ bs) = drop (Suc n) (h @ b # bs)"
  by (cases h) simp_all

section \<open>The 3D builder: placement\<close>

lemma addBlock_occupied:
  "map_has (blocks s) (getBlockKey q r y) \<Longrightarrow> addBlock q r y m a s = (Inr False, s)"
  by (simp add: addBlock_def)

text \<open>
  C7. In the 3D builder, placing on an occupied coordinate is a no-op and not an overwrite:
  \<^verbatim>\<open>addBlock\<close> returns false and changes nothing, so the stored material index stays and
  the store still has exactly one entry at that key; and \<^verbatim>\<open>placeBlock\<close> on a hovered cell
  that resolves to the occupied coordinate changes nothing either, so it records no
  history entry.
\<close>

theorem placing_on_occupied_is_noop:
  assumes "map_get (blocks s) (getBlockKey q r y) = Some old"
    and "distinct (map fst (blocks s))"
    and "y = (if hy = -1 then 0 else hy)"
  shows "addBlock q r y m animate s = (Inr False, s)
       \<and> map_get (blocks (snd (addBlock q r y m animate s))) (getBlockKey q r y) = Some old
       \<and> length (filter (\<lambda>e. fst e = getBlockKey q r y) (blocks (snd (addBlock q r y m animate s)))) = 1
       \<and> placeBlock (s\<lparr>hoveredBlock := Some (q, r, hy)\<rparr>) = (Inr (), s\<lparr>hoveredBlock := Some (q, r, hy)\<rparr>)
       \<and> history_3d (snd (placeBlock (s\<lparr>hoveredBlock := Some (q, r, hy)\<rparr>))) = history_3d s"
proof -
  have has: "map_has (blocks s) (getBlockKey q r y)"
    using assms(1) by (rule map_get_Some_has)
  have add: "addBlock q r y m animate s = (Inr False, s)"
    using has by (rule addBlock_occupied)
  have cnt: "length (filter (\<lambda>e. fst e = getBlockKey q r y) (blocks s)) = 1"
    using assms(1,2) by (simp add: map_get_def count_distinct_key)
  let ?s = "s\<lparr>hoveredBlock := Some (q, r, hy)\<rparr>"
  have has': "map_has (blocks ?s) (getBlockKey q r y)" using has by simp
  have "addBlock q r y (currentMaterial ?s) True ?s = (Inr False, ?s)"
    using has' by (simp add: addBlock_def)
  then have place: "placeBlock ?s = (Inr (), ?s)"
    using assms(3) by (simp add: placeBlock_def Let_def)
  show ?thesis using add cnt place assms(1) by simp
qed

theorem placing_on_occupied_witness:
  "map_get (blocks (snd (placeBlock (STATE_3d\<lparr>hoveredBlock := Some (0, 0, -1)\<rparr>)))) (getBlockKey 0 0 0) = Some 0
   \<and> distinct (map fst (blocks (snd (placeBlock (STATE_3d\<lparr>hoveredBlock := Some (0, 0, -1)\<rparr>)))))
   \<and> addBlock 0 0 0 0 True (snd (placeBlock (STATE_3d\<lparr>hoveredBlock := Some (0, 0, -1)\<rparr>)))
       = (Inr False, snd (placeBlock (STATE_3d\<lparr>hoveredBlock := Some (0, 0, -1)\<rparr>)))
   \<and> fst (placeBlock (snd (placeBlock (STATE_3d\<lparr>hoveredBlock := Some (0, 0, -1)\<rparr>)))) = Inr ()
   \<and> blocks (snd (placeBlock (snd (placeBlock (STATE_3d\<lparr>hoveredBlock := Some (0, 0, -1)\<rparr>))))) = [((0, 0, 0), 0)]
   \<and> length (history_3d (snd (placeBlock (snd (placeBlock (STATE_3d\<lparr>hoveredBlock := Some (0, 0, -1)\<rparr>)))))) = 1"
proof -
  let ?s1 = "snd (placeBlock (STATE_3d\<lparr>hoveredBlock := Some (0, 0, -1)\<rparr>))"
  have s1: "?s1 = \<lparr>currentMaterial = 0, blocks = [((0, 0, 0), 0)],
       blockMeshes = [((0, 0, 0), \<lparr>mesh_color = ''#6b7280'', userData_q = 0, userData_r = 0,
          userData_y = 0, userData_materialIndex = 0\<rparr>)],
       hoveredBlock = Some (0, 0, -1), isPlacing = False,
       history_3d = [[((0, 0, 0), 0)]], historyIndex_3d = 0\<rparr>"
    by (simp add: placeBlock_def STATE_3d_def addBlock_def getBlockKey_def map_has_def map_set_def
        MATERIALS_def maxHeight_def saveState_3d_def Let_def)
  have h1: "map_get (blocks ?s1) (getBlockKey 0 0 0) = Some 0"
    unfolding s1 by (simp add: map_get_def getBlockKey_def)
  have h2: "distinct (map fst (blocks ?s1))"
    unfolding s1 by simp
  have h3: "(0::int) = (if (-1::int) = -1 then 0 else -1)" by simp
  have upd: "?s1\<lparr>hoveredBlock := Some (0, 0, -1)\<rparr> = ?s1"
    unfolding s1 by simp
  show ?thesis
    using placing_on_occupied_is_noop [OF h1 h2 h3, of 0 True] h1 h2
    unfolding upd by (simp add: s1)
qed

text \<open>
  C8. In the 3D builder a placement whose resolved layer is outside \<open>[0, maxHeight)\<close>, with
  \<open>maxHeight = 20\<close>, is rejected: \<^verbatim>\<open>placeBlock\<close> returns the state as it was, store and
  history included. A ground hit (hovered layer \<open>-1\<close>) is mapped to layer \<open>0\<close> and placed
  there: on a free cell and with a material of the palette the block is stored under
  \<open>(q, r, 0)\<close> and the snapshot is recorded.
\<close>

theorem placeBlock_layer_guard:
  assumes "hoveredBlock s = Some (q, r, y)"
  shows "maxHeight = 20
     \<and> ((if y = -1 then 0 else y) < 0 \<or> (if y = -1 then 0 else y) \<ge> maxHeight
          \<longrightarrow> placeBlock s = (Inr (), s))
     \<and> (y = -1 \<and> \<not> map_has (blocks s) (getBlockKey q r 0) \<and> currentMaterial s < length MATERIALS
          \<longrightarrow> fst (placeBlock s) = Inr ()
            \<and> blocks (snd (placeBlock s)) = map_set (getBlockKey q r 0) (currentMaterial s) (blocks s)
            \<and> map_get (blocks (snd (placeBlock s))) (getBlockKey q r 0) = Some (currentMaterial s)
            \<and> snd (placeBlock s) = saveState_3d (snd (addBlock q r 0 (currentMaterial s) True s)))"
proof (intro conjI impI)
  show "maxHeight = 20" by (simp add: maxHeight_def)
next
  assume "(if y = -1 then 0 else y) < 0 \<or> (if y = -1 then 0 else y) \<ge> maxHeight"
  then show "placeBlock s = (Inr (), s)"
    using assms by (auto simp: placeBlock_def Let_def)
next
  assume g: "y = -1 \<and> \<not> map_has (blocks s) (getBlockKey q r 0) \<and> currentMaterial s < length MATERIALS"
  then have add: "addBlock q r 0 (currentMaterial s) True s =
      (Inr True, s\<lparr>blocks := map_set (getBlockKey q r 0) (currentMaterial s) (blocks s),
         blockMeshes := map_set (getBlockKey q r 0)
           \<lparr>mesh_color = mat_color (MATERIALS ! currentMaterial s), userData_q = q, userData_r = r,
             userData_y = 0, userData_materialIndex = currentMaterial s\<rparr> (blockMeshes s)\<rparr>)"
    by (simp add: addBlock_def Let_def)
  have place: "placeBlock s = (Inr (), saveState_3d (snd (addBlock q r 0 (currentMaterial s) True s)))"
    using assms g add by (simp add: placeBlock_def Let_def maxHeight_def)
  have blk: "blocks (saveState_3d t) = blocks t" for t
    by (simp add: saveState_3d_def Let_def)
  show "fst (placeBlock s) = Inr ()" using place by simp
  show "blocks (snd (placeBlock s)) = map_set (getBlockKey q r 0) (currentMaterial s) (blocks s)"
    using place add by (simp add: blk)
  show "map_get (blocks (snd (placeBlock s))) (getBlockKey q r 0) = Some (currentMaterial s)"
    using place add by (simp add: blk map_get_def map_set_def update_conv')
  show "snd (placeBlock s) = saveState_3d (snd (addBlock q r 0 (currentMaterial s) True s))"
    using place by simp
qed

theorem placeBlock_layer_guard_witness:
  "placeBlock (STATE_3d\<lparr>hoveredBlock := Some (2, -1, 20)\<rparr>) = (Inr (), STATE_3d\<lparr>hoveredBlock := Some (2, -1, 20)\<rparr>)
   \<and> placeBlock (STATE_3d\<lparr>hoveredBlock := Some (2, -1, -2)\<rparr>) = (Inr (), STATE_3d\<lparr>hoveredBlock := Some (2, -1, -2)\<rparr>)
   \<and> fst (placeBlock (STATE_3d\<lparr>hoveredBlock := Some (2, -1, -1)\<rparr>)) = Inr ()
   \<and> blocks (snd (placeBlock (STATE_3d\<lparr>hoveredBlock := Some (2, -1, -1)\<rparr>))) = [((2, -1, 0), 0)]"
proof -
  have a: "hoveredBlock (STATE_3d\<lparr>hoveredBlock := Some (2, -1, y)\<rparr>) = Some (2, -1, y)" for y
    by simp
  have free: "\<not> map_has (blocks (STATE_3d\<lparr>hoveredBlock := Some (2, -1, -1)\<rparr>)) (getBlockKey 2 (-1) 0)"
    by (simp add: STATE_3d_def map_has_def)
  have mat: "currentMaterial (STATE_3d\<lparr>hoveredBlock := Some (2, -1, -1)\<rparr>) < length MATERIALS"
    by (simp add: STATE_3d_def MATERIALS_def)
  have upd: "map_set (getBlockKey 2 (-1) 0) 0 [] = [((2, -1, 0), 0::nat)]"
    by (simp add: map_set_def getBlockKey_def)
  have r1: "placeBlock (STATE_3d\<lparr>hoveredBlock := Some (2, -1, 20)\<rparr>) = (Inr (), STATE_3d\<lparr>hoveredBlock := Some (2, -1, 20)\<rparr>)"
    using placeBlock_layer_guard [OF a [of 20]] by (simp add: maxHeight_def)
  have r2: "placeBlock (STATE_3d\<lparr>hoveredBlock := Some (2, -1, -2)\<rparr>) = (Inr (), STATE_3d\<lparr>hoveredBlock := Some (2, -1, -2)\<rparr>)"
    using placeBlock_layer_guard [OF a [of "-2"]] by simp
  have r3: "fst (placeBlock (STATE_3d\<lparr>hoveredBlock := Some (2, -1, -1)\<rparr>)) = Inr ()
      \<and> blocks (snd (placeBlock (STATE_3d\<lparr>hoveredBlock := Some (2, -1, -1)\<rparr>)))
        = map_set (getBlockKey 2 (-1) 0) (currentMaterial (STATE_3d\<lparr>hoveredBlock := Some (2, -1, -1)\<rparr>))
            (blocks (STATE_3d\<lparr>hoveredBlock := Some (2, -1, -1)\<rparr>))"
    using placeBlock_layer_guard [OF a [of "-1"]] free mat by blast
  have cur: "currentMaterial (STATE_3d\<lparr>hoveredBlock := Some (2, -1, -1)\<rparr>) = 0"
    "blocks (STATE_3d\<lparr>hoveredBlock := Some (2, -1, -1)\<rparr>) = []"
    by (simp_all add: STATE_3d_def)
  show ?thesis
    using r1 r2 r3 unfolding cur upd by blast
qed

section \<open>The 3D builder: data map and render handles\<close>

lemma addBlock_sync:
  "meshes_in_sync s \<Longrightarrow> m < length MATERIALS \<Longrightarrow>
    (\<exists>b. fst (addBlock q r y m a s) = Inr b) \<and> meshes_in_sync (snd (addBlock q r y m a s))"
  by (auto simp: addBlock_def Let_def meshes_in_sync_def keySet_map_set)

lemma removeBlock_sync:
  assumes sync: "meshes_in_sync s"
  shows "meshes_in_sync (snd (removeBlock q r y a s))"
proof (cases "map_has (blocks s) (getBlockKey q r y)")
  case False
  with sync show ?thesis by (simp add: removeBlock_def)
next
  case True
  with sync have "getBlockKey q r y \<in> keySet (blockMeshes s)"
    by (simp add: map_has_keySet meshes_in_sync_def)
  then obtain m where "map_get (blockMeshes s) (getBlockKey q r y) = Some m"
    using map_has_keySet [of "blockMeshes s" "getBlockKey q r y"]
    by (auto simp: map_has_def map_get_def)
  with True sync show ?thesis
    by (simp add: removeBlock_def Let_def meshes_in_sync_def keySet_map_delete)
qed

lemma loadState_loop_sync:
  "list_all (\<lambda>e. snd e < length MATERIALS) entries \<Longrightarrow> meshes_in_sync s \<Longrightarrow>
    fst (loadState_loop entries s) = Inr () \<and> meshes_in_sync (snd (loadState_loop entries s))"
proof (induction entries arbitrary: s)
  case Nil
  then show ?case by simp
next
  case (Cons e entries)
  obtain q r y m where e: "e = ((q, r, y), m)" by (metis surj_pair)
  from Cons.prems have m: "m < length MATERIALS" and rest: "list_all (\<lambda>e. snd e < length MATERIALS) entries"
    by (simp_all add: e)
  from addBlock_sync [OF Cons.prems(2) m, of q r y False]
  obtain b where b: "fst (addBlock q r y m False s) = Inr b"
    and sync: "meshes_in_sync (snd (addBlock q r y m False s))" by blast
  obtain s' where s': "addBlock q r y m False s = (Inr b, s')"
    using b by (cases "addBlock q r y m False s") simp
  from Cons.IH [OF rest] sync s' show ?case
    by (simp add: e)
qed

text \<open>
  C9. The block data map and the render-handle map of the 3D builder have the same key
  set after \<^verbatim>\<open>addBlock\<close>, \<^verbatim>\<open>removeBlock\<close> and \<^verbatim>\<open>loadState\<close> if they had before; the
  material indices are those of the palette (an index outside it makes \<^verbatim>\<open>addBlock\<close>
  raise between the two writes).
\<close>

theorem block_maps_stay_in_sync:
  assumes "meshes_in_sync s"
  shows "(materialIndex < length MATERIALS
            \<longrightarrow> meshes_in_sync (snd (addBlock q r y materialIndex animate s)))
       \<and> meshes_in_sync (snd (removeBlock q r y animate s))
       \<and> (list_all (\<lambda>e. snd e < length MATERIALS) snapshot
            \<longrightarrow> fst (loadState (Some snapshot) s) = Inr ()
              \<and> meshes_in_sync (snd (loadState (Some snapshot) s)))"
proof (intro conjI impI)
  assume "materialIndex < length MATERIALS"
  with assms show "meshes_in_sync (snd (addBlock q r y materialIndex animate s))"
    by (simp add: addBlock_sync)
next
  show "meshes_in_sync (snd (removeBlock q r y animate s))"
    using assms by (rule removeBlock_sync)
next
  assume v: "list_all (\<lambda>e. snd e < length MATERIALS) snapshot"
  have c: "meshes_in_sync (s\<lparr>blockMeshes := [], blocks := []\<rparr>)"
    by (simp add: meshes_in_sync_def keySet_Nil)
  from loadState_loop_sync [OF v c]
  show "fst (loadState (Some snapshot) s) = Inr ()"
    and "meshes_in_sync (snd (loadState (Some snapshot) s))"
    by (simp_all add: loadState_def Let_def)
qed

theorem block_maps_stay_in_sync_witness:
  "meshes_in_sync STATE_3d
   \<and> meshes_in_sync (snd (addBlock 1 0 0 2 True STATE_3d))
   \<and> keySet (blockMeshes (snd (addBlock 1 0 0 2 True STATE_3d))) = {(1, 0, 0)}
   \<and> meshes_in_sync (snd (removeBlock 1 0 0 True (snd (addBlock 1 0 0 2 True STATE_3d))))
   \<and> fst (loadState (Some [((0, 0, 0), 0), ((0, 0, 1), 3)]) STATE_3d) = Inr ()
   \<and> meshes_in_sync (snd (loadState (Some [((0, 0, 0), 0), ((0, 0, 1), 3)]) STATE_3d))"
proof -
  have s0: "meshes_in_sync STATE_3d"
    by (simp add: meshes_in_sync_def STATE_3d_def keySet_def)
  have m: "(2::nat) < length MATERIALS"
    by (simp add: MATERIALS_def)
  have v: "list_all (\<lambda>e. snd e < length MATERIALS) [((0, 0, 0), 0), ((0::int, 0::int, 1::int), 3::nat)]"
    by (simp add: MATERIALS_def)
  have s1: "meshes_in_sync (snd (addBlock 1 0 0 2 True STATE_3d))"
    using block_maps_stay_in_sync [OF s0, of 2 1 0 0 True] m by blast
  have k: "keySet (blockMeshes (snd (addBlock 1 0 0 2 True STATE_3d))) = {(1, 0, 0)}"
    by (simp add: addBlock_def STATE_3d_def map_has_def map_set_def getBlockKey_def MATERIALS_def
        keySet_def Let_def)
  have s2: "meshes_in_sync (snd (removeBlock 1 0 0 True (snd (addBlock 1 0 0 2 True STATE_3d))))"
    using block_maps_stay_in_sync [OF s1] by blast
  have s3: "fst (loadState (Some [((0, 0, 0), 0), ((0, 0, 1), 3)]) STATE_3d) = Inr ()
      \<and> meshes_in_sync (snd (loadState (Some [((0, 0, 0), 0), ((0, 0, 1), 3)]) STATE_3d))"
    using block_maps_stay_in_sync [OF s0] v by blast
  show ?thesis using s0 s1 k s2 s3 by blast
qed

section \<open>History: the cap\<close>

lemma saveState_3d_at_end:
  assumes "historyIndex_3d s = int (length (history_3d s)) - 1"
  shows "saveState_3d s =
    (if length (history_3d s) \<ge> 50
     then s\<lparr>history_3d := tl (history_3d s @ [blocks s]), historyIndex_3d := int (length (history_3d s)) - 1\<rparr>
     else s\<lparr>history_3d := history_3d s @ [blocks s], historyIndex_3d := int (length (history_3d s))\<rparr>)"
  using assms by (simp add: saveState_3d_def Let_def)

lemma saveState_3d_length:
  "length (history_3d s) \<le> 50 \<Longrightarrow> length (history_3d (saveState_3d s)) \<le> 50"
  using js_slice0_length [of "history_3d s" "historyIndex_3d s + 1"]
  by (simp add: saveState_3d_def Let_def)

lemma saveState_3d_index:
  "historyIndex_3d (saveState_3d s) = int (length (history_3d (saveState_3d s))) - 1"
  by (auto simp: saveState_3d_def Let_def)

lemma saveState_3d_last:
  "last (history_3d (saveState_3d s)) = blocks s"
  by (auto simp: saveState_3d_def Let_def last_tl_snoc)

lemma saveState_3d_blocks: "blocks (saveState_3d s) = blocks s"
  by (simp add: saveState_3d_def Let_def)

lemma record_all_3d_at_end:
  assumes "historyIndex_3d s = int (length (history_3d s)) - 1" and "length (history_3d s) \<le> 50"
  shows "history_3d (record_all_3d bs s) = drop (length (history_3d s) + length bs - 50) (history_3d s @ bs)
       \<and> historyIndex_3d (record_all_3d bs s) = int (length (history_3d (record_all_3d bs s))) - 1"
  using assms
proof (induction bs arbitrary: s)
  case Nil
  then show ?case by simp
next
  case (Cons b bs)
  let ?s = "s\<lparr>blocks := b\<rparr>"
  let ?t = "saveState_3d ?s"
  have e: "historyIndex_3d ?s = int (length (history_3d ?s)) - 1" using Cons.prems by simp
  have t: "?t = (if length (history_3d s) \<ge> 50
      then ?s\<lparr>history_3d := tl (history_3d s @ [b]), historyIndex_3d := int (length (history_3d s)) - 1\<rparr>
      else ?s\<lparr>history_3d := history_3d s @ [b], historyIndex_3d := int (length (history_3d s))\<rparr>)"
    using saveState_3d_at_end [OF e] by simp
  have ti: "historyIndex_3d ?t = int (length (history_3d ?t)) - 1"
    by (rule saveState_3d_index)
  have tl: "length (history_3d ?t) \<le> 50"
    using Cons.prems by (simp add: saveState_3d_length)
  note IH = Cons.IH [OF ti tl]
  show ?case
  proof (cases "length (history_3d s) \<ge> 50")
    case True
    with Cons.prems have l: "length (history_3d s) = 50" by simp
    from True t have h: "history_3d ?t = tl (history_3d s @ [b])" by simp
    have "history_3d (record_all_3d (b # bs) s) = drop (length bs) (tl (history_3d s @ [b]) @ bs)"
      using IH h l by simp
    also have "\<dots> = drop (Suc (length bs)) (history_3d s @ b # bs)"
      using l by (rule drop_tl_snoc)
    finally show ?thesis using IH l by simp
  next
    case False
    with t have h: "history_3d ?t = history_3d s @ [b]" by simp
    show ?thesis using IH h by simp
  qed
qed

lemma saveState_2d_at_end:
  assumes "historyIndex_2d s = int (length (history_2d s)) - 1"
  shows "saveState_2d s =
    (if length (history_2d s) \<ge> 50
     then s\<lparr>history_2d := tl (history_2d s @ [hexCells s])\<rparr>
     else s\<lparr>history_2d := history_2d s @ [hexCells s], historyIndex_2d := int (length (history_2d s))\<rparr>)"
  using assms by (simp add: saveState_2d_def Let_def maxHistorySteps_def)

lemma saveState_2d_length:
  "length (history_2d s) \<le> 50 \<Longrightarrow> length (history_2d (saveState_2d s)) \<le> 50"
  using js_slice0_length [of "history_2d s" "historyIndex_2d s + 1"]
  by (simp add: saveState_2d_def Let_def maxHistorySteps_def)

lemma saveState_2d_index:
  assumes "- 1 \<le> historyIndex_2d s" and "historyIndex_2d s \<le> int (length (history_2d s)) - 1"
  shows "historyIndex_2d (saveState_2d s) = int (length (history_2d (saveState_2d s))) - 1"
proof (cases "historyIndex_2d s < int (length (history_2d s)) - 1")
  case True
  with assms have "length (js_slice0 (history_2d s) (historyIndex_2d s + 1)) = nat (historyIndex_2d s + 1)"
    by (simp add: js_slice0_prefix)
  with True assms show ?thesis
    by (simp add: saveState_2d_def Let_def maxHistorySteps_def)
next
  case False
  with assms have "historyIndex_2d s = int (length (history_2d s)) - 1" by simp
  then show ?thesis
    by (simp add: saveState_2d_at_end)
qed

lemma saveState_2d_last:
  "last (history_2d (saveState_2d s)) = hexCells s"
  by (auto simp: saveState_2d_def Let_def last_tl_snoc maxHistorySteps_def)

lemma record_all_2d_at_end:
  assumes "historyIndex_2d s = int (length (history_2d s)) - 1" and "length (history_2d s) \<le> 50"
  shows "history_2d (record_all_2d cs s) = drop (length (history_2d s) + length cs - 50) (history_2d s @ cs)
       \<and> historyIndex_2d (record_all_2d cs s) = int (length (history_2d (record_all_2d cs s))) - 1"
  using assms
proof (induction cs arbitrary: s)
  case Nil
  then show ?case by simp
next
  case (Cons c cs)
  let ?s = "s\<lparr>hexCells := c\<rparr>"
  let ?t = "saveState_2d ?s"
  have e: "historyIndex_2d ?s = int (length (history_2d ?s)) - 1" using Cons.prems by simp
  have t: "?t = (if length (history_2d s) \<ge> 50
      then ?s\<lparr>history_2d := tl (history_2d s @ [c])\<rparr>
      else ?s\<lparr>history_2d := history_2d s @ [c], historyIndex_2d := int (length (history_2d s))\<rparr>)"
    using saveState_2d_at_end [OF e] by simp
  have ti: "historyIndex_2d ?t = int (length (history_2d ?t)) - 1"
    using e by (intro saveState_2d_index) simp_all
  have tl: "length (history_2d ?t) \<le> 50"
    using Cons.prems by (simp add: saveState_2d_length)
  note IH = Cons.IH [OF ti tl]
  show ?case
  proof (cases "length (history_2d s) \<ge> 50")
    case True
    with Cons.prems have l: "length (history_2d s) = 50" by simp
    from True t have h: "history_2d ?t = tl (history_2d s @ [c])" by simp
    have "history_2d (record_all_2d (c # cs) s) = drop (length cs) (tl (history_2d s @ [c]) @ cs)"
      using IH h l by simp
    also have "\<dots> = drop (Suc (length cs)) (history_2d s @ c # cs)"
      using l by (rule drop_tl_snoc)
    finally show ?thesis using IH l by simp
  next
    case False
    with t have h: "history_2d ?t = history_2d s @ [c]" by simp
    show ?thesis using IH h by simp
  qed
qed

text \<open>
  C3. The history never grows beyond 50 snapshots, in both variants: \<^verbatim>\<open>saveState\<close> keeps
  the length at most 50, leaves the index on the last entry, and that entry is the store
  just recorded. After any run of records from the initial state the history holds the
  last 50 recorded stores, so after the 51st record the oldest one is gone, and the index
  is the last position.
\<close>

theorem history_capped_at_50:
  assumes "length (history_3d s) \<le> 50"
    and "length (history_2d t) \<le> 50"
    and "- 1 \<le> historyIndex_2d t"
    and "historyIndex_2d t \<le> int (length (history_2d t)) - 1"
  shows "length (history_3d (saveState_3d s)) \<le> 50
    \<and> historyIndex_3d (saveState_3d s) = int (length (history_3d (saveState_3d s))) - 1
    \<and> last (history_3d (saveState_3d s)) = blocks s
    \<and> length (history_2d (saveState_2d t)) \<le> 50
    \<and> historyIndex_2d (saveState_2d t) = int (length (history_2d (saveState_2d t))) - 1
    \<and> last (history_2d (saveState_2d t)) = hexCells t
    \<and> history_3d (record_all_3d bs STATE_3d) = drop (length bs - 50) bs
    \<and> historyIndex_3d (record_all_3d bs STATE_3d) = int (min (length bs) 50) - 1
    \<and> history_2d (record_all_2d cs STATE_2d) = drop (length cs - 50) cs
    \<and> historyIndex_2d (record_all_2d cs STATE_2d) = int (min (length cs) 50) - 1"
proof -
  have a3: "historyIndex_3d STATE_3d = int (length (history_3d STATE_3d)) - 1"
    and b3: "length (history_3d STATE_3d) \<le> 50"
    by (simp_all add: STATE_3d_def)
  have a2: "historyIndex_2d STATE_2d = int (length (history_2d STATE_2d)) - 1"
    and b2: "length (history_2d STATE_2d) \<le> 50"
    by (simp_all add: STATE_2d_def)
  have h3: "history_3d STATE_3d = []" by (simp add: STATE_3d_def)
  have h2: "history_2d STATE_2d = []" by (simp add: STATE_2d_def)
  from record_all_3d_at_end [OF a3 b3, of bs]
  have r3: "history_3d (record_all_3d bs STATE_3d) = drop (length bs - 50) bs"
    and i3: "historyIndex_3d (record_all_3d bs STATE_3d) = int (length (history_3d (record_all_3d bs STATE_3d))) - 1"
    by (simp_all add: h3)
  from record_all_2d_at_end [OF a2 b2, of cs]
  have r2: "history_2d (record_all_2d cs STATE_2d) = drop (length cs - 50) cs"
    and i2: "historyIndex_2d (record_all_2d cs STATE_2d) = int (length (history_2d (record_all_2d cs STATE_2d))) - 1"
    by (simp_all add: h2)
  have j3: "historyIndex_3d (record_all_3d bs STATE_3d) = int (min (length bs) 50) - 1"
    unfolding i3 r3 by (simp add: min_def)
  have j2: "historyIndex_2d (record_all_2d cs STATE_2d) = int (min (length cs) 50) - 1"
    unfolding i2 r2 by (simp add: min_def)
  show ?thesis
    using saveState_3d_length [OF assms(1)] saveState_3d_index [of s] saveState_3d_last [of s]
      saveState_2d_length [OF assms(2)] saveState_2d_index [OF assms(3,4)] saveState_2d_last [of t]
      r3 j3 r2 j2
    by simp
qed

theorem history_capped_at_50_witness:
  "length (history_3d STATE_3d) \<le> 50
   \<and> length (history_2d STATE_2d) \<le> 50
   \<and> - 1 \<le> historyIndex_2d STATE_2d
   \<and> historyIndex_2d STATE_2d \<le> int (length (history_2d STATE_2d)) - 1
   \<and> history_3d (record_all_3d (map (\<lambda>i. [((int i, 0, 0), 0)]) [0..<51]) STATE_3d)
        = map (\<lambda>i. [((int i, 0, 0), 0)]) [1..<51]
   \<and> historyIndex_3d (record_all_3d (map (\<lambda>i. [((int i, 0, 0), 0)]) [0..<51]) STATE_3d) = 49
   \<and> history_2d (record_all_2d (map (\<lambda>i. [((int i, 0), ''#ffffff'')]) [0..<51]) STATE_2d)
        = map (\<lambda>i. [((int i, 0), ''#ffffff'')]) [1..<51]
   \<and> historyIndex_2d (record_all_2d (map (\<lambda>i. [((int i, 0), ''#ffffff'')]) [0..<51]) STATE_2d) = 49
   \<and> history_3d (saveState_3d STATE_3d) = [[]] \<and> historyIndex_3d (saveState_3d STATE_3d) = 0
   \<and> history_2d (saveState_2d STATE_2d) = [[]] \<and> historyIndex_2d (saveState_2d STATE_2d) = 0"
proof -
  have h1: "length (history_3d STATE_3d) \<le> 50" by (simp add: STATE_3d_def)
  have h2: "length (history_2d STATE_2d) \<le> 50" by (simp add: STATE_2d_def)
  have h3: "- 1 \<le> historyIndex_2d STATE_2d" by (simp add: STATE_2d_def)
  have h4: "historyIndex_2d STATE_2d \<le> int (length (history_2d STATE_2d)) - 1"
    by (simp add: STATE_2d_def)
  note t = history_capped_at_50 [OF h1 h2 h3 h4,
      of "map (\<lambda>i. [((int i, 0, 0), 0)]) [0..<51]" "map (\<lambda>i. [((int i, 0), ''#ffffff'')]) [0..<51]"]
  have d: "drop (Suc 0) (map f [0..<51]) = map f [1..<51]" for f :: "nat \<Rightarrow> 'a"
    by (simp add: drop_map)
  have s3: "history_3d (saveState_3d STATE_3d) = [[]] \<and> historyIndex_3d (saveState_3d STATE_3d) = 0"
    by (simp add: saveState_3d_def STATE_3d_def Let_def)
  have s2: "history_2d (saveState_2d STATE_2d) = [[]] \<and> historyIndex_2d (saveState_2d STATE_2d) = 0"
    by (simp add: saveState_2d_def STATE_2d_def Let_def maxHistorySteps_def)
  show ?thesis
    using t h1 h2 h3 h4 s3 s2 by (simp add: d)
qed

section \<open>History: undo and redo\<close>

lemma addBlock_frame:
  "history_3d (snd (addBlock q r y m a s)) = history_3d s
   \<and> historyIndex_3d (snd (addBlock q r y m a s)) = historyIndex_3d s
   \<and> currentMaterial (snd (addBlock q r y m a s)) = currentMaterial s
   \<and> hoveredBlock (snd (addBlock q r y m a s)) = hoveredBlock s
   \<and> isPlacing (snd (addBlock q r y m a s)) = isPlacing s"
  by (simp add: addBlock_def Let_def)

lemma loadState_loop_frame:
  "history_3d (snd (loadState_loop es s)) = history_3d s
   \<and> historyIndex_3d (snd (loadState_loop es s)) = historyIndex_3d s
   \<and> currentMaterial (snd (loadState_loop es s)) = currentMaterial s
   \<and> hoveredBlock (snd (loadState_loop es s)) = hoveredBlock s
   \<and> isPlacing (snd (loadState_loop es s)) = isPlacing s"
proof (induction es arbitrary: s)
  case Nil
  show ?case by simp
next
  case (Cons e es)
  obtain q r y m where e: "e = ((q, r, y), m)" by (metis surj_pair)
  obtain res s' where a: "addBlock q r y m False s = (res, s')" by (cases "addBlock q r y m False s")
  from addBlock_frame [of q r y m False s] a
  have f: "history_3d s' = history_3d s \<and> historyIndex_3d s' = historyIndex_3d s
      \<and> currentMaterial s' = currentMaterial s \<and> hoveredBlock s' = hoveredBlock s
      \<and> isPlacing s' = isPlacing s" by simp
  show ?case
  proof (cases res)
    case (Inl err)
    with a f show ?thesis by (simp add: e)
  next
    case (Inr b)
    with a f Cons.IH [of s'] show ?thesis by (simp add: e)
  qed
qed

lemma loadState_frame:
  "history_3d (snd (loadState snap s)) = history_3d s
   \<and> historyIndex_3d (snd (loadState snap s)) = historyIndex_3d s
   \<and> currentMaterial (snd (loadState snap s)) = currentMaterial s
   \<and> hoveredBlock (snd (loadState snap s)) = hoveredBlock s
   \<and> isPlacing (snd (loadState snap s)) = isPlacing s"
  by (cases snap) (simp_all add: loadState_def Let_def loadState_loop_frame)

lemma state3_eqI:
  "currentMaterial a = currentMaterial b \<Longrightarrow> blocks a = blocks b \<Longrightarrow> blockMeshes a = blockMeshes b
    \<Longrightarrow> hoveredBlock a = hoveredBlock b \<Longrightarrow> isPlacing a = isPlacing b
    \<Longrightarrow> history_3d a = history_3d b \<Longrightarrow> historyIndex_3d a = historyIndex_3d b
    \<Longrightarrow> a = (b :: state3)"
  by simp

lemma loadState_only_store:
  "snd (loadState snap s) =
     s\<lparr>blocks := blocks (snd (loadState snap s)), blockMeshes := blockMeshes (snd (loadState snap s))\<rparr>"
  by (rule state3_eqI) (simp_all add: loadState_frame)

text \<open>
  C10. In both variants \<^verbatim>\<open>undo\<close> and \<^verbatim>\<open>redo\<close> leave the history list as it is. When
  the guard makes the call a no-op the whole state is unchanged; otherwise the index moves
  by exactly one. Nothing changes but the index and the live store (in the 3D builder the
  block map together with its render handles).
\<close>

theorem undo_redo_keep_history:
  "history_3d (snd (undo_3d s)) = history_3d s
   \<and> history_3d (snd (redo_3d s)) = history_3d s
   \<and> (if historyIndex_3d s \<le> 0 then undo_3d s = (Inr (), s)
       else historyIndex_3d (snd (undo_3d s)) = historyIndex_3d s - 1)
   \<and> (if historyIndex_3d s \<ge> int (length (history_3d s)) - 1 then redo_3d s = (Inr (), s)
       else historyIndex_3d (snd (redo_3d s)) = historyIndex_3d s + 1)
   \<and> snd (undo_3d s) = s\<lparr>historyIndex_3d := historyIndex_3d (snd (undo_3d s)),
        blocks := blocks (snd (undo_3d s)), blockMeshes := blockMeshes (snd (undo_3d s))\<rparr>
   \<and> snd (redo_3d s) = s\<lparr>historyIndex_3d := historyIndex_3d (snd (redo_3d s)),
        blocks := blocks (snd (redo_3d s)), blockMeshes := blockMeshes (snd (redo_3d s))\<rparr>
   \<and> history_2d (undo_2d t) = history_2d t
   \<and> history_2d (redo_2d t) = history_2d t
   \<and> (if historyIndex_2d t > 0 then historyIndex_2d (undo_2d t) = historyIndex_2d t - 1
       else undo_2d t = t)
   \<and> (if historyIndex_2d t < int (length (history_2d t)) - 1
       then historyIndex_2d (redo_2d t) = historyIndex_2d t + 1
       else redo_2d t = t)
   \<and> undo_2d t = t\<lparr>historyIndex_2d := historyIndex_2d (undo_2d t), hexCells := hexCells (undo_2d t)\<rparr>
   \<and> redo_2d t = t\<lparr>historyIndex_2d := historyIndex_2d (redo_2d t), hexCells := hexCells (redo_2d t)\<rparr>"
proof -
  have u3: "history_3d (snd (undo_3d s)) = history_3d s"
    by (simp add: undo_3d_def Let_def loadState_frame)
  have r3: "history_3d (snd (redo_3d s)) = history_3d s"
    by (simp add: redo_3d_def Let_def loadState_frame)
  have ui: "if historyIndex_3d s \<le> 0 then undo_3d s = (Inr (), s)
       else historyIndex_3d (snd (undo_3d s)) = historyIndex_3d s - 1"
    by (simp add: undo_3d_def Let_def loadState_frame)
  have ri: "if historyIndex_3d s \<ge> int (length (history_3d s)) - 1 then redo_3d s = (Inr (), s)
       else historyIndex_3d (snd (redo_3d s)) = historyIndex_3d s + 1"
    by (simp add: redo_3d_def Let_def loadState_frame)
  have uf: "snd (undo_3d s) = s\<lparr>historyIndex_3d := historyIndex_3d (snd (undo_3d s)),
        blocks := blocks (snd (undo_3d s)), blockMeshes := blockMeshes (snd (undo_3d s))\<rparr>"
    by (rule state3_eqI) (simp_all add: undo_3d_def Let_def loadState_frame)
  have rf: "snd (redo_3d s) = s\<lparr>historyIndex_3d := historyIndex_3d (snd (redo_3d s)),
        blocks := blocks (snd (redo_3d s)), blockMeshes := blockMeshes (snd (redo_3d s))\<rparr>"
    by (rule state3_eqI) (simp_all add: redo_3d_def Let_def loadState_frame)
  have two: "history_2d (undo_2d t) = history_2d t
   \<and> history_2d (redo_2d t) = history_2d t
   \<and> (if historyIndex_2d t > 0 then historyIndex_2d (undo_2d t) = historyIndex_2d t - 1
       else undo_2d t = t)
   \<and> (if historyIndex_2d t < int (length (history_2d t)) - 1
       then historyIndex_2d (redo_2d t) = historyIndex_2d t + 1
       else redo_2d t = t)
   \<and> undo_2d t = t\<lparr>historyIndex_2d := historyIndex_2d (undo_2d t), hexCells := hexCells (undo_2d t)\<rparr>
   \<and> redo_2d t = t\<lparr>historyIndex_2d := historyIndex_2d (redo_2d t), hexCells := hexCells (redo_2d t)\<rparr>"
    by (simp add: undo_2d_def redo_2d_def Let_def)
  show ?thesis using u3 r3 ui ri uf rf two by blast
qed

section \<open>The 3D builder records after it edits\<close>

text \<open>
  \<^verbatim>\<open>placeBlock\<close> and \<^verbatim>\<open>removeBlockAtCursor\<close> call \<^verbatim>\<open>saveState()\<close> after the edit and only
  when \<^verbatim>\<open>addBlock\<close> or \<^verbatim>\<open>removeBlock\<close> returned true. So the snapshot at the index is the
  live store, an edit that leaves the store as it was records nothing, and \<^verbatim>\<open>undo\<close>
  followed by \<^verbatim>\<open>redo\<close> gives the store back.
\<close>

lemma addBlock_new:
  assumes "\<not> map_has (blocks s) (getBlockKey q r y)" and "m < length MATERIALS"
  shows "fst (addBlock q r y m a s) = Inr True
       \<and> blocks (snd (addBlock q r y m a s)) = blocks s @ [(getBlockKey q r y, m)]"
  using assms by (simp add: addBlock_def Let_def map_set_absent)

lemma loadState_loop_blocks:
  assumes "distinct (map fst es)" and "list_all (\<lambda>e. snd e < length MATERIALS) es"
    and "keySet (blocks s) \<inter> fst ` set es = {}"
  shows "fst (loadState_loop es s) = Inr () \<and> blocks (snd (loadState_loop es s)) = blocks s @ es"
  using assms
proof (induction es arbitrary: s)
  case Nil
  then show ?case by simp
next
  case (Cons e es)
  obtain q r y m where e: "e = ((q, r, y), m)" by (metis surj_pair)
  have free: "\<not> map_has (blocks s) (getBlockKey q r y)"
    using Cons.prems(3) by (auto simp: e map_has_keySet getBlockKey_def)
  have m: "m < length MATERIALS" using Cons.prems(2) by (simp add: e)
  from addBlock_new [OF free m, of False]
  obtain s' where a: "addBlock q r y m False s = (Inr True, s')"
    and b: "blocks s' = blocks s @ [((q, r, y), m)]"
    by (cases "addBlock q r y m False s") (auto simp: getBlockKey_def)
  have d: "distinct (map fst es)" and v: "list_all (\<lambda>e. snd e < length MATERIALS) es"
    using Cons.prems(1,2) by simp_all
  have k: "keySet (blocks s') \<inter> fst ` set es = {}"
    using Cons.prems(1,3) by (auto simp: b e keySet_def)
  from Cons.IH [OF d v k] a b show ?case by (simp add: e)
qed

lemma loadState_restores:
  assumes "snapshot_ok snap"
  shows "fst (loadState (Some snap) s) = Inr () \<and> blocks (snd (loadState (Some snap) s)) = snap"
proof -
  have "keySet (blocks (s\<lparr>blockMeshes := [], blocks := []\<rparr>)) \<inter> fst ` set snap = {}"
    by (simp add: keySet_def)
  from loadState_loop_blocks [OF _ _ this] assms show ?thesis
    by (simp add: loadState_def Let_def snapshot_ok_def)
qed

lemma history_ok_snapshot:
  assumes "history_ok_3d s" and "0 \<le> i" and "i < int (length (history_3d s))"
  shows "snapshot_ok (history_3d s ! nat i)"
  using assms by (simp add: history_ok_3d_def list_all_length)

lemma history_ok_current: "history_ok_3d s \<Longrightarrow> snapshot_ok (blocks s)"
  using history_ok_snapshot [of s "historyIndex_3d s"]
  by (auto simp: history_ok_3d_def js_index_def split: if_splits)

lemma load_at_index:
  assumes ok: "history_ok_3d s" and i: "0 \<le> i" "i < int (length (history_3d s))"
  shows "fst (loadState (js_index (history_3d s) i) (s\<lparr>historyIndex_3d := i\<rparr>)) = Inr ()
    \<and> blocks (snd (loadState (js_index (history_3d s) i) (s\<lparr>historyIndex_3d := i\<rparr>))) = history_3d s ! nat i
    \<and> history_3d (snd (loadState (js_index (history_3d s) i) (s\<lparr>historyIndex_3d := i\<rparr>))) = history_3d s
    \<and> historyIndex_3d (snd (loadState (js_index (history_3d s) i) (s\<lparr>historyIndex_3d := i\<rparr>))) = i"
  using loadState_restores [OF history_ok_snapshot [OF ok i], of "s\<lparr>historyIndex_3d := i\<rparr>"]
    loadState_frame [of "js_index (history_3d s) i" "s\<lparr>historyIndex_3d := i\<rparr>"] i
  by (simp add: js_index_Some)

lemma undo_3d_ok:
  assumes ok: "history_ok_3d s" and pos: "0 < historyIndex_3d s"
  shows "fst (undo_3d s) = Inr ()
    \<and> blocks (snd (undo_3d s)) = history_3d s ! nat (historyIndex_3d s - 1)
    \<and> history_3d (snd (undo_3d s)) = history_3d s
    \<and> historyIndex_3d (snd (undo_3d s)) = historyIndex_3d s - 1"
proof -
  have i: "0 \<le> historyIndex_3d s - 1" "historyIndex_3d s - 1 < int (length (history_3d s))"
    using ok pos by (simp_all add: history_ok_3d_def)
  from load_at_index [OF ok i] pos show ?thesis
    by (simp add: undo_3d_def Let_def)
qed

lemma redo_3d_ok:
  assumes ok: "history_ok_3d s" and lt: "historyIndex_3d s < int (length (history_3d s)) - 1"
  shows "fst (redo_3d s) = Inr ()
    \<and> blocks (snd (redo_3d s)) = history_3d s ! nat (historyIndex_3d s + 1)
    \<and> history_3d (snd (redo_3d s)) = history_3d s
    \<and> historyIndex_3d (snd (redo_3d s)) = historyIndex_3d s + 1"
proof -
  have i: "0 \<le> historyIndex_3d s + 1" "historyIndex_3d s + 1 < int (length (history_3d s))"
    using ok lt by (simp_all add: history_ok_3d_def)
  from load_at_index [OF ok i] lt show ?thesis
    by (simp add: redo_3d_def Let_def)
qed

lemma history_ok_undo:
  assumes ok: "history_ok_3d s"
  shows "history_ok_3d (snd (undo_3d s))"
proof (cases "0 < historyIndex_3d s")
  case True
  from undo_3d_ok [OF ok True] ok True show ?thesis
    by (simp add: history_ok_3d_def js_index_def)
next
  case False
  with ok show ?thesis by (simp add: undo_3d_def)
qed

lemma history_ok_redo:
  assumes ok: "history_ok_3d s"
  shows "history_ok_3d (snd (redo_3d s))"
proof (cases "historyIndex_3d s < int (length (history_3d s)) - 1")
  case True
  from redo_3d_ok [OF ok True] ok True show ?thesis
    by (simp add: history_ok_3d_def js_index_def)
next
  case False
  with ok show ?thesis by (simp add: redo_3d_def)
qed

lemma undo_then_redo_3d:
  assumes ok: "history_ok_3d s"
    and here: "0 < historyIndex_3d s \<or> historyIndex_3d s = int (length (history_3d s)) - 1"
  shows "blocks (snd (redo_3d (snd (undo_3d s)))) = blocks s
       \<and> historyIndex_3d (snd (redo_3d (snd (undo_3d s)))) = historyIndex_3d s
       \<and> fst (undo_3d s) = Inr () \<and> fst (redo_3d (snd (undo_3d s))) = Inr ()"
proof (cases "0 < historyIndex_3d s")
  case True
  note u = undo_3d_ok [OF ok True]
  have ok': "history_ok_3d (snd (undo_3d s))" by (rule history_ok_undo [OF ok])
  have lt: "historyIndex_3d (snd (undo_3d s)) < int (length (history_3d (snd (undo_3d s)))) - 1"
    using u ok by (simp add: history_ok_3d_def)
  note r = redo_3d_ok [OF ok' lt]
  have cur: "history_3d s ! nat (historyIndex_3d s) = blocks s"
    using ok by (auto simp: history_ok_3d_def js_index_def split: if_splits)
  from u r cur show ?thesis by simp
next
  case False
  with here have e: "historyIndex_3d s = int (length (history_3d s)) - 1" by simp
  from False have "undo_3d s = (Inr (), s)" by (simp add: undo_3d_def)
  moreover from e have "redo_3d s = (Inr (), s)" by (simp add: redo_3d_def)
  ultimately show ?thesis by simp
qed

lemma saveState_3d_all:
  "list_all P (history_3d s) \<Longrightarrow> P (blocks s) \<Longrightarrow> list_all P (history_3d (saveState_3d s))"
  by (simp add: saveState_3d_def Let_def list_all_tl list_all_js_slice0)

lemma saveState_3d_nonempty: "history_3d (saveState_3d s) \<noteq> []"
proof -
  have "xs \<noteq> []" if "49 < length xs" for xs :: "(blockKey, nat) jsmap list"
    using that by auto
  then show ?thesis
    by (auto simp: saveState_3d_def Let_def tl_append split: list.splits)
qed

lemma saveState_3d_history_ok:
  assumes "list_all snapshot_ok (history_3d s)" and "snapshot_ok (blocks s)"
  shows "history_ok_3d (saveState_3d s)
       \<and> historyIndex_3d (saveState_3d s) = int (length (history_3d (saveState_3d s))) - 1"
proof -
  let ?t = "saveState_3d s"
  have ne: "history_3d ?t \<noteq> []" by (rule saveState_3d_nonempty)
  have i: "historyIndex_3d ?t = int (length (history_3d ?t)) - 1" by (rule saveState_3d_index)
  have l: "last (history_3d ?t) = blocks ?t" by (simp add: saveState_3d_last saveState_3d_blocks)
  have a: "list_all snapshot_ok (history_3d ?t)" using assms by (rule saveState_3d_all)
  have "js_index (history_3d ?t) (historyIndex_3d ?t) = Some (blocks ?t)"
    using ne l unfolding i by (simp add: js_index_def last_conv_nth nat_pred)
  with ne i a show ?thesis by (simp add: history_ok_3d_def)
qed

lemma snapshot_ok_add:
  "snapshot_ok m \<Longrightarrow> \<not> map_has m k \<Longrightarrow> v < length MATERIALS \<Longrightarrow> snapshot_ok (m @ [(k, v)])"
  by (auto simp: snapshot_ok_def map_has_keySet keySet_def)

lemma snapshot_ok_delete:
  assumes "snapshot_ok m"
  shows "snapshot_ok (map_delete k m)"
proof -
  have "distinct (map fst (AList.delete k m))"
    using assms by (simp add: snapshot_ok_def distinct_delete)
  moreover have "list_all (\<lambda>e. snd e < length MATERIALS) (AList.delete k m)"
    using assms by (auto simp: snapshot_ok_def AList.delete_eq list_all_iff)
  ultimately show ?thesis by (simp add: snapshot_ok_def map_delete_def)
qed

lemma placeBlock_cases:
  assumes "currentMaterial s < length MATERIALS"
  shows "placeBlock s = (Inr (), s)
    \<or> (\<exists>k s'. \<not> map_has (blocks s) k \<and> blocks s' = blocks s @ [(k, currentMaterial s)]
          \<and> history_3d s' = history_3d s \<and> historyIndex_3d s' = historyIndex_3d s
          \<and> placeBlock s = (Inr (), saveState_3d s'))"
proof (cases "hoveredBlock s")
  case None
  then show ?thesis by (simp add: placeBlock_def)
next
  case (Some h)
  obtain q r y where h: "h = (q, r, y)" by (metis surj_pair)
  define py where "py = (if y = -1 then 0 else y)"
  have pb: "placeBlock s =
      (if py \<ge> 0 \<and> py < maxHeight then
         (case addBlock q r py (currentMaterial s) True s of
            (Inl e, s') \<Rightarrow> (Inl e, s')
          | (Inr True, s') \<Rightarrow> (Inr (), saveState_3d s')
          | (Inr False, s') \<Rightarrow> (Inr (), s'))
       else (Inr (), s))"
    using Some h by (simp add: placeBlock_def Let_def py_def)
  show ?thesis
  proof (cases "py \<ge> 0 \<and> py < maxHeight")
    case False
    with pb show ?thesis by simp
  next
    case inrange: True
    show ?thesis
    proof (cases "map_has (blocks s) (getBlockKey q r py)")
      case True
      then have "addBlock q r py (currentMaterial s) True s = (Inr False, s)"
        by (rule addBlock_occupied)
      with pb inrange have "placeBlock s = (Inr (), s)" by simp
      then show ?thesis by simp
    next
      case False
      obtain res s' where a: "addBlock q r py (currentMaterial s) True s = (res, s')"
        by (cases "addBlock q r py (currentMaterial s) True s")
      from addBlock_new [OF False assms, of True] a
      have res: "res = Inr True"
        and b: "blocks s' = blocks s @ [(getBlockKey q r py, currentMaterial s)]"
        by simp_all
      from addBlock_frame [of q r py "currentMaterial s" True s] a
      have f: "history_3d s' = history_3d s" "historyIndex_3d s' = historyIndex_3d s"
        by simp_all
      have "placeBlock s = (Inr (), saveState_3d s')"
        using pb inrange a res by simp
      with False b f show ?thesis by blast
    qed
  qed
qed

lemma removeBlockAtCursor_cases:
  "removeBlockAtCursor hit s = s
    \<or> (\<exists>k s'. map_has (blocks s) k \<and> blocks s' = map_delete k (blocks s)
          \<and> history_3d s' = history_3d s \<and> historyIndex_3d s' = historyIndex_3d s
          \<and> removeBlockAtCursor hit s = saveState_3d s')"
proof (cases hit)
  case None
  then show ?thesis by (simp add: removeBlockAtCursor_def)
next
  case (Some block)
  let ?k = "getBlockKey (userData_q block) (userData_r block) (userData_y block)"
  show ?thesis
  proof (cases "map_has (blocks s) ?k")
    case False
    with Some show ?thesis by (simp add: removeBlockAtCursor_def removeBlock_def)
  next
    case True
    have "\<exists>s'. removeBlock (userData_q block) (userData_r block) (userData_y block) True s = (True, s')
        \<and> blocks s' = map_delete ?k (blocks s)
        \<and> history_3d s' = history_3d s \<and> historyIndex_3d s' = historyIndex_3d s"
      using True by (cases "map_get (blockMeshes s) ?k") (simp_all add: removeBlock_def Let_def)
    then obtain s' where r: "removeBlock (userData_q block) (userData_r block) (userData_y block) True s = (True, s')"
      and b: "blocks s' = map_delete ?k (blocks s)"
      and h: "history_3d s' = history_3d s" "historyIndex_3d s' = historyIndex_3d s"
      by blast
    have "removeBlockAtCursor hit s = saveState_3d s'"
      using Some r by (simp add: removeBlockAtCursor_def)
    with True b h show ?thesis by blast
  qed
qed

lemma history_ok_all: "history_ok_3d s \<Longrightarrow> list_all snapshot_ok (history_3d s)"
  by (simp add: history_ok_3d_def)

lemma placeBlock_settled:
  assumes "settled_3d s" and "currentMaterial s < length MATERIALS"
  shows "settled_3d (snd (placeBlock s))"
proof -
  from assms(1) have ok: "history_ok_3d s" by (simp add: settled_3d_def)
  from placeBlock_cases [OF assms(2)] show ?thesis
  proof
    assume "placeBlock s = (Inr (), s)"
    with assms(1) show ?thesis by simp
  next
    assume "\<exists>k s'. \<not> map_has (blocks s) k \<and> blocks s' = blocks s @ [(k, currentMaterial s)]
          \<and> history_3d s' = history_3d s \<and> historyIndex_3d s' = historyIndex_3d s
          \<and> placeBlock s = (Inr (), saveState_3d s')"
    then obtain k s' where k: "\<not> map_has (blocks s) k"
      and b: "blocks s' = blocks s @ [(k, currentMaterial s)]"
      and h: "history_3d s' = history_3d s"
      and p: "placeBlock s = (Inr (), saveState_3d s')" by blast
    have "snapshot_ok (blocks s')"
      unfolding b using history_ok_current [OF ok] k assms(2) by (rule snapshot_ok_add)
    moreover have "list_all snapshot_ok (history_3d s')"
      unfolding h by (rule history_ok_all [OF ok])
    ultimately show ?thesis
      using saveState_3d_history_ok [of s'] p by (simp add: settled_3d_def)
  qed
qed

lemma removeBlockAtCursor_settled:
  assumes "settled_3d s"
  shows "settled_3d (removeBlockAtCursor hit s)"
proof -
  from assms(1) have ok: "history_ok_3d s" by (simp add: settled_3d_def)
  from removeBlockAtCursor_cases [of hit s] show ?thesis
  proof
    assume "removeBlockAtCursor hit s = s"
    with assms show ?thesis by simp
  next
    assume "\<exists>k s'. map_has (blocks s) k \<and> blocks s' = map_delete k (blocks s)
          \<and> history_3d s' = history_3d s \<and> historyIndex_3d s' = historyIndex_3d s
          \<and> removeBlockAtCursor hit s = saveState_3d s'"
    then obtain k s' where b: "blocks s' = map_delete k (blocks s)"
      and h: "history_3d s' = history_3d s"
      and p: "removeBlockAtCursor hit s = saveState_3d s'" by blast
    have "snapshot_ok (blocks s')"
      unfolding b using history_ok_current [OF ok] by (rule snapshot_ok_delete)
    moreover have "list_all snapshot_ok (history_3d s')"
      unfolding h by (rule history_ok_all [OF ok])
    ultimately show ?thesis
      using saveState_3d_history_ok [of s'] p by (simp add: settled_3d_def)
  qed
qed

lemma apply_edit_settled:
  "settled_3d s \<Longrightarrow> edit_ok e \<Longrightarrow> settled_3d (apply_edit_3d e s)"
proof (cases e)
  case (Place hovered m)
  assume s: "settled_3d s" and "edit_ok e"
  with Place have m: "m < length MATERIALS" by simp
  have "settled_3d (s\<lparr>hoveredBlock := hovered, currentMaterial := m\<rparr>)"
    using s by (auto simp: settled_3d_def history_ok_3d_def)
  from placeBlock_settled [OF this] m Place show ?thesis by simp
next
  case (Remove hit)
  assume "settled_3d s"
  with Remove show ?thesis by (simp add: removeBlockAtCursor_settled)
qed

lemma fold_edits_settled:
  "settled_3d s \<Longrightarrow> list_all edit_ok es \<Longrightarrow> settled_3d (fold apply_edit_3d es s)"
  by (induction es arbitrary: s) (simp_all add: apply_edit_settled)

lemma createStarterBlocks_value:
  "fst (createStarterBlocks STATE_3d) = Inr ()
   \<and> blocks (snd (createStarterBlocks STATE_3d)) =
       [((0, 0, 0), 0), ((1, 0, 0), 0), ((-1, 0, 0), 0), ((0, 0, 1), 0), ((0, 0, -1), 0),
        ((1, 0, 1), 0), ((-1, 0, -1), 0), ((1, 0, -1), 0), ((-1, 0, 1), 0)]
   \<and> history_3d (snd (createStarterBlocks STATE_3d)) = [blocks (snd (createStarterBlocks STATE_3d))]
   \<and> historyIndex_3d (snd (createStarterBlocks STATE_3d)) = 0"
  by (simp add: createStarterBlocks_def STATE_3d_def addBlock_def getBlockKey_def map_has_def
      map_set_def MATERIALS_def saveState_3d_def Let_def)

lemma createStarterBlocks_settled: "settled_3d (snd (createStarterBlocks STATE_3d))"
proof -
  let ?s = "snd (createStarterBlocks STATE_3d)"
  from createStarterBlocks_value
  have b: "blocks ?s =
       [((0, 0, 0), 0), ((1, 0, 0), 0), ((-1, 0, 0), 0), ((0, 0, 1), 0), ((0, 0, -1), 0),
        ((1, 0, 1), 0), ((-1, 0, -1), 0), ((1, 0, -1), 0), ((-1, 0, 1), 0)]"
    and h: "history_3d ?s = [blocks ?s]" and i: "historyIndex_3d ?s = 0"
    by blast+
  have "snapshot_ok (blocks ?s)"
    unfolding b by (simp add: snapshot_ok_def MATERIALS_def)
  then show ?thesis
    unfolding settled_3d_def history_ok_3d_def h i by (simp add: js_index_def)
qed

lemma undo_redo_3d_after_edits:
  assumes "list_all edit_ok es"
  shows "blocks (snd (redo_3d (snd (undo_3d (fold apply_edit_3d es (snd (createStarterBlocks STATE_3d)))))))
       = blocks (fold apply_edit_3d es (snd (createStarterBlocks STATE_3d)))"
proof -
  have "settled_3d (fold apply_edit_3d es (snd (createStarterBlocks STATE_3d)))"
    using createStarterBlocks_settled assms by (rule fold_edits_settled)
  then show ?thesis
    using undo_then_redo_3d by (simp add: settled_3d_def)
qed

lemma placeBlock_noop_no_snapshot:
  assumes "blocks (snd (placeBlock s)) = blocks s" and "currentMaterial s < length MATERIALS"
  shows "placeBlock s = (Inr (), s)"
proof -
  from placeBlock_cases [OF assms(2)] show ?thesis
  proof
    assume "\<exists>k s'. \<not> map_has (blocks s) k \<and> blocks s' = blocks s @ [(k, currentMaterial s)]
          \<and> history_3d s' = history_3d s \<and> historyIndex_3d s' = historyIndex_3d s
          \<and> placeBlock s = (Inr (), saveState_3d s')"
    then obtain k s' where "blocks s' = blocks s @ [(k, currentMaterial s)]"
      and "placeBlock s = (Inr (), saveState_3d s')" by blast
    with assms(1) have False by (simp add: saveState_3d_blocks)
    then show ?thesis ..
  qed
qed

lemma removeBlockAtCursor_noop_no_snapshot:
  assumes "blocks (removeBlockAtCursor hit s) = blocks s"
  shows "removeBlockAtCursor hit s = s"
proof -
  from removeBlockAtCursor_cases [of hit s] show ?thesis
  proof
    assume "\<exists>k s'. map_has (blocks s) k \<and> blocks s' = map_delete k (blocks s)
          \<and> history_3d s' = history_3d s \<and> historyIndex_3d s' = historyIndex_3d s
          \<and> removeBlockAtCursor hit s = saveState_3d s'"
    then obtain k s' where "map_has (blocks s) k" and "blocks s' = map_delete k (blocks s)"
      and "removeBlockAtCursor hit s = saveState_3d s'" by blast
    with assms map_delete_shorter [of "blocks s" k] have False
      by (simp add: saveState_3d_blocks)
    then show ?thesis ..
  qed
qed

section \<open>The 2D editor records before it edits\<close>

text \<open>
  \<^verbatim>\<open>handleMouseDown\<close> calls \<^verbatim>\<open>saveState()\<close> before \<^verbatim>\<open>drawAtPosition\<close>, whatever the tool
  will do. The snapshot is therefore the store before the edit, it is taken for edits that
  change nothing too, and the store after the last edit is in no snapshot.
\<close>

lemma floodFill_self:
  "floodFill startCol startRow (Some fillColor) fillColor s = s"
  by (simp add: floodFill_def)

lemma drawAtPosition_history:
  "history_2d (drawAtPosition hex s) = history_2d s
   \<and> historyIndex_2d (drawAtPosition hex s) = historyIndex_2d s"
  by (cases hex) (simp add: drawAtPosition_def floodFill_def Let_def)

lemma handleMouseDown_records_first:
  "history_2d (handleMouseDown 0 False hex s) = history_2d (saveState_2d s)
   \<and> last (history_2d (handleMouseDown 0 False hex s)) = hexCells s"
proof -
  have "history_2d (saveState_2d (s\<lparr>isDrawing := True\<rparr>)) = history_2d (saveState_2d s)"
    by (simp add: saveState_2d_def Let_def)
  moreover have "last (history_2d (saveState_2d s)) = hexCells s"
    by (rule saveState_2d_last)
  ultimately show ?thesis
    by (simp add: handleMouseDown_def Let_def drawAtPosition_history)
qed

lemma init_2d_value:
  "init_2d (STATE_2d\<lparr>currentColor := ''#ff0000''\<rparr>) =
    \<lparr>currentTool = ''draw'', currentColor = ''#ff0000'', isDrawing = False, isPanning = False,
     gridSize = 20, hexCells = [], history_2d = [[]], historyIndex_2d = 0\<rparr>"
  by (simp add: init_2d_def saveState_2d_def STATE_2d_def Let_def maxHistorySteps_def)

lemma drawn_2d_value:
  "drawn_2d =
    \<lparr>currentTool = ''draw'', currentColor = ''#ff0000'', isDrawing = False, isPanning = False,
     gridSize = 20, hexCells = [((0, 0), ''#ff0000'')], history_2d = [[], []], historyIndex_2d = 1\<rparr>"
  by (simp add: drawn_2d_def init_2d_value handleMouseDown_def handleMouseUp_def saveState_2d_def
      drawAtPosition_def Let_def maxHistorySteps_def map_get_def map_set_def)

text \<open>
  C1, in the 2D editor, at the scenario of the specification: drawing on \<open>(0, 0)\<close> gives the
  store \<open>{(0,0): #ff0000}\<close> and a history of length 2; \<^verbatim>\<open>undo\<close> empties the store; \<^verbatim>\<open>redo\<close>
  then loads the second snapshot, which is the empty store recorded before the edit, and
  not the store that was there before the undo.
\<close>

theorem undo_redo_2d_loses_edit:
  "hexCells (init_2d (STATE_2d\<lparr>currentColor := ''#ff0000''\<rparr>)) = []
   \<and> length (history_2d (init_2d (STATE_2d\<lparr>currentColor := ''#ff0000''\<rparr>))) = 1
   \<and> hexCells drawn_2d = [((0, 0), ''#ff0000'')]
   \<and> length (history_2d drawn_2d) = 2
   \<and> hexCells (undo_2d drawn_2d) = []
   \<and> hexCells (redo_2d (undo_2d drawn_2d)) = []
   \<and> hexCells (redo_2d (undo_2d drawn_2d)) \<noteq> hexCells drawn_2d"
  by (simp add: init_2d_value drawn_2d_value undo_2d_def redo_2d_def Let_def js_index_def new_Map_def)

text \<open>
  C2, in the 2D editor: a pointer-down that resolves outside the grid, one that draws the
  colour a cell already has, and one that erases an empty cell each leave the store as it
  was and still add a snapshot to the history.
\<close>

theorem noop_edit_2d_records_snapshot:
  "hexCells (handleMouseDown 0 False (-1, 5) drawn_2d) = hexCells drawn_2d
   \<and> length (history_2d (handleMouseDown 0 False (-1, 5) drawn_2d)) = length (history_2d drawn_2d) + 1
   \<and> hexCells (handleMouseDown 0 False (0, 0) drawn_2d) = hexCells drawn_2d
   \<and> length (history_2d (handleMouseDown 0 False (0, 0) drawn_2d)) = length (history_2d drawn_2d) + 1
   \<and> hexCells (handleMouseDown 0 False (3, 3) (drawn_2d\<lparr>currentTool := ''erase''\<rparr>)) = hexCells drawn_2d
   \<and> length (history_2d (handleMouseDown 0 False (3, 3) (drawn_2d\<lparr>currentTool := ''erase''\<rparr>)))
        = length (history_2d drawn_2d) + 1"
  by (simp add: drawn_2d_value handleMouseDown_def saveState_2d_def drawAtPosition_def
      Let_def maxHistorySteps_def map_get_def map_set_def map_has_def)

text \<open>
  C5, in the 2D editor: with the fill tool on a cell that already has the current colour,
  \<^verbatim>\<open>floodFill\<close> returns at once and the store is unchanged, but the pointer-down that
  dispatched it has pushed a snapshot.
\<close>

theorem self_fill_2d_records_snapshot:
  "map_get (hexCells drawn_2d) (0, 0) = Some (currentColor drawn_2d)
   \<and> hexCells (floodFill 0 0 (map_get (hexCells drawn_2d) (0, 0)) (currentColor drawn_2d) drawn_2d)
        = hexCells drawn_2d
   \<and> hexCells (handleMouseDown 0 False (0, 0) (drawn_2d\<lparr>currentTool := ''fill''\<rparr>)) = hexCells drawn_2d
   \<and> history_2d drawn_2d = [[], []]
   \<and> history_2d (handleMouseDown 0 False (0, 0) (drawn_2d\<lparr>currentTool := ''fill''\<rparr>))
        = [[], [], [((0, 0), ''#ff0000'')]]"
  by (simp add: drawn_2d_value handleMouseDown_def saveState_2d_def drawAtPosition_def floodFill_def
      Let_def maxHistorySteps_def map_get_def)

section \<open>Flood fill\<close>

declare floodFill_loop.simps [simp del]

lemma hex_path_snoc:
  "hex_path gs p \<Longrightarrow> n \<in> set (getNeighbors gs (fst (last p)) (snd (last p))) \<Longrightarrow> hex_path gs (p @ [n])"
  by (induction gs p rule: hex_path.induct) auto

lemma target_path_start:
  "map_get cells start = tc \<Longrightarrow> target_path gs cells tc start start [start]"
  by (simp add: target_path_def)

lemma target_path_step:
  assumes "target_path gs cells tc start k p"
    and "n \<in> set (getNeighbors gs (fst k) (snd k))"
    and "map_get cells n = tc"
  shows "target_path gs cells tc start n (p @ [n])"
proof -
  from assms(1) have p: "hex_path gs p" "hd p = start" "last p = k"
    "list_all (\<lambda>c. map_get cells c = tc) p"
    by (simp_all add: target_path_def)
  from p(1) have ne: "p \<noteq> []" by (cases p) simp_all
  from p(1,3) assms(2) have "hex_path gs (p @ [n])" by (simp add: hex_path_snoc)
  with p ne assms(3) show ?thesis by (simp add: target_path_def)
qed

lemma map_get_fill:
  "map_get (if fc \<noteq> [] then map_set key fc cells else map_delete key cells) k =
     (if k = key then fill_value fc else map_get cells k)"
  by (simp add: map_get_def map_set_def map_delete_def fill_value_def update_conv' delete_conv')

lemma loop_done:
  "\<not> (stack \<noteq> [] \<and> filled < 1000) \<Longrightarrow>
    floodFill_loop gs tc fc cells visited stack filled = (cells, visited, filled)"
  by (subst floodFill_loop.simps) auto

lemma loop_seen:
  "stack \<noteq> [] \<Longrightarrow> filled < 1000 \<Longrightarrow> last stack \<in> visited \<Longrightarrow>
    floodFill_loop gs tc fc cells visited stack filled =
    floodFill_loop gs tc fc cells visited (butlast stack) filled"
  by (subst floodFill_loop.simps) simp

lemma loop_skip:
  "stack \<noteq> [] \<Longrightarrow> filled < 1000 \<Longrightarrow> last stack \<notin> visited \<Longrightarrow> map_get cells (last stack) \<noteq> tc \<Longrightarrow>
    floodFill_loop gs tc fc cells visited stack filled =
    floodFill_loop gs tc fc cells (insert (last stack) visited) (butlast stack) filled"
  by (subst floodFill_loop.simps) (simp add: Let_def)

lemma loop_fill:
  "stack \<noteq> [] \<Longrightarrow> filled < 1000 \<Longrightarrow> last stack \<notin> visited \<Longrightarrow> map_get cells (last stack) = tc \<Longrightarrow>
    floodFill_loop gs tc fc cells visited stack filled =
    floodFill_loop gs tc fc
      (if fc \<noteq> [] then map_set (last stack) fc cells else map_delete (last stack) cells)
      (insert (last stack) visited)
      (butlast stack @ filter (\<lambda>n. n \<notin> insert (last stack) visited)
          (getNeighbors gs (fst (last stack)) (snd (last stack))))
      (filled + 1)"
  by (subst floodFill_loop.simps) (simp add: Let_def)

lemma fill_inv_get:
  "fill_inv gs c0 tc fc start F cells filled \<Longrightarrow>
    map_get cells k = (if k \<in> F then fill_value fc else map_get c0 k)"
  unfolding fill_inv_def by blast

lemma fill_inv_target:
  "fill_inv gs c0 tc fc start F cells filled \<Longrightarrow> k \<in> F \<Longrightarrow>
    map_get c0 k = tc \<and> (\<exists>p. target_path gs c0 tc start k p)"
  unfolding fill_inv_def by blast

lemma fill_inv_card:
  "fill_inv gs c0 tc fc start F cells filled \<Longrightarrow> finite F \<and> card F = filled \<and> filled \<le> 1000"
  unfolding fill_inv_def by blast

lemma floodFill_loop_inv:
  assumes "fill_inv gs c0 tc fc start F cells filled"
    and "F \<subseteq> visited"
    and "\<forall>k. k \<in> set stack \<longrightarrow> map_get c0 k = tc \<longrightarrow> (\<exists>p. target_path gs c0 tc start k p)"
  shows "\<exists>F'. fill_inv gs c0 tc fc start F'
            (fst (floodFill_loop gs tc fc cells visited stack filled))
            (snd (snd (floodFill_loop gs tc fc cells visited stack filled)))"
  using assms
proof (induction gs tc fc cells visited stack filled arbitrary: F rule: floodFill_loop.induct)
  case (1 gs tc fc cells visited stack filled)
  show ?case
  proof (cases "stack \<noteq> [] \<and> filled < 1000")
    case False
    then show ?thesis using "1.prems"(1) by (auto simp: loop_done)
  next
    case True
    then have ne: "stack \<noteq> []" and lt: "filled < 1000" by simp_all
    let ?key = "last stack"
    have key_in: "?key \<in> set stack" using ne by simp
    have bl: "\<forall>k. k \<in> set (butlast stack) \<longrightarrow> map_get c0 k = tc \<longrightarrow> (\<exists>p. target_path gs c0 tc start k p)"
      using "1.prems"(3) by (auto dest: in_set_butlastD)
    show ?thesis
    proof (cases "?key \<in> visited")
      case seen: True
      have "\<exists>F'. fill_inv gs c0 tc fc start F'
            (fst (floodFill_loop gs tc fc cells visited (butlast stack) filled))
            (snd (snd (floodFill_loop gs tc fc cells visited (butlast stack) filled)))"
        using True seen "1.prems"(1,2) bl by (intro "1.IH"(1) [of ?key "butlast stack" F]) simp_all
      then show ?thesis by (simp add: loop_seen [OF ne lt seen])
    next
      case unseen: False
      then have notF: "?key \<notin> F" using "1.prems"(2) by auto
      then have cur: "map_get cells ?key = map_get c0 ?key"
        using fill_inv_get [OF "1.prems"(1), of ?key] by simp
      show ?thesis
      proof (cases "map_get cells ?key \<noteq> tc")
        case other: True
        have "\<exists>F'. fill_inv gs c0 tc fc start F'
            (fst (floodFill_loop gs tc fc cells (insert ?key visited) (butlast stack) filled))
            (snd (snd (floodFill_loop gs tc fc cells (insert ?key visited) (butlast stack) filled)))"
          using True unseen other "1.prems"(1,2) bl
          by (intro "1.IH"(2) [of ?key "butlast stack" "insert ?key visited" "map_get cells ?key" F])
            auto
        then show ?thesis by (simp add: loop_skip [OF ne lt unseen other])
      next
        case False
        then have hit: "map_get cells ?key = tc" by simp
        let ?cells1 = "if fc \<noteq> [] then map_set ?key fc cells else map_delete ?key cells"
        let ?visited1 = "insert ?key visited"
        let ?stack2 = "butlast stack @ filter (\<lambda>n. n \<notin> ?visited1) (getNeighbors gs (fst ?key) (snd ?key))"
        let ?F1 = "insert ?key F"
        from hit cur have c0key: "map_get c0 ?key = tc" by simp
        from "1.prems"(3) key_in c0key obtain p where p: "target_path gs c0 tc start ?key p"
          by blast
        have inv: "fill_inv gs c0 tc fc start F cells filled" by (rule "1.prems"(1))
        have inv1: "fill_inv gs c0 tc fc start ?F1 ?cells1 (filled + 1)"
          unfolding fill_inv_def
        proof (intro conjI allI impI)
          show "finite ?F1" using fill_inv_card [OF inv] by simp
          show "card ?F1 = filled + 1" using fill_inv_card [OF inv] notF by simp
          show "filled + 1 \<le> 1000" using lt by simp
          show "map_get ?cells1 k = (if k \<in> ?F1 then fill_value fc else map_get c0 k)" for k
            using fill_inv_get [OF inv, of k] by (simp add: map_get_fill)
          show "map_get c0 k = tc" if "k \<in> ?F1" for k
            using that fill_inv_target [OF inv, of k] c0key by auto
          show "\<exists>p. target_path gs c0 tc start k p" if "k \<in> ?F1" for k
            using that fill_inv_target [OF inv, of k] p by auto
        qed
        have sub1: "?F1 \<subseteq> ?visited1" using "1.prems"(2) by auto
        have st2: "\<forall>k. k \<in> set ?stack2 \<longrightarrow> map_get c0 k = tc \<longrightarrow> (\<exists>p. target_path gs c0 tc start k p)"
        proof (intro allI impI)
          fix k assume k: "k \<in> set ?stack2" and t: "map_get c0 k = tc"
          show "\<exists>p. target_path gs c0 tc start k p"
          proof (cases "k \<in> set (butlast stack)")
            case True
            with bl t show ?thesis by blast
          next
            case False
            with k have "k \<in> set (getNeighbors gs (fst ?key) (snd ?key))" by auto
            from target_path_step [OF p this t] show ?thesis by blast
          qed
        qed
        have "\<exists>F'. fill_inv gs c0 tc fc start F'
            (fst (floodFill_loop gs tc fc ?cells1 ?visited1 ?stack2 (filled + 1)))
            (snd (snd (floodFill_loop gs tc fc ?cells1 ?visited1 ?stack2 (filled + 1))))"
          using True unseen hit inv1 sub1 st2
          by (intro "1.IH"(3) [of ?key "butlast stack" ?visited1 "map_get cells ?key" ?cells1 ?stack2 ?F1])
            simp_all
        then show ?thesis by (simp add: loop_fill [OF ne lt unseen hit])
      qed
    qed
  qed
qed

text \<open>
  C4. For a replacement different from the target, \<^verbatim>\<open>floodFill\<close> changes only the cell map,
  and it returns (the loop terminates, and the model has no failing branch). The counter
  \<^verbatim>\<open>filled\<close> ends at most at 1000; the cells whose payload differs afterwards are finitely
  many and at most \<^verbatim>\<open>filled\<close>, exactly \<^verbatim>\<open>filled\<close> for a real colour, so no cell is counted
  twice. Every changed cell held the target payload before, holds the fill value after,
  and is joined to the start by a path of neighbouring cells that all held the target
  payload; every other cell keeps its payload, beyond the cap too.
\<close>

theorem floodFill_bounded:
  assumes "targetColor \<noteq> Some fillColor"
  shows "floodFill startCol startRow targetColor fillColor s =
           s\<lparr>hexCells := fst (floodFill_loop (gridSize s) targetColor fillColor (hexCells s) {}
                                 [(startCol, startRow)] 0)\<rparr>
    \<and> snd (snd (floodFill_loop (gridSize s) targetColor fillColor (hexCells s) {}
                  [(startCol, startRow)] 0)) \<le> 1000
    \<and> finite {k. map_get (hexCells (floodFill startCol startRow targetColor fillColor s)) k
                  \<noteq> map_get (hexCells s) k}
    \<and> card {k. map_get (hexCells (floodFill startCol startRow targetColor fillColor s)) k
                  \<noteq> map_get (hexCells s) k} \<le> 1000
    \<and> card {k. map_get (hexCells (floodFill startCol startRow targetColor fillColor s)) k
                  \<noteq> map_get (hexCells s) k}
        \<le> snd (snd (floodFill_loop (gridSize s) targetColor fillColor (hexCells s) {}
                       [(startCol, startRow)] 0))
    \<and> (fillColor \<noteq> [] \<longrightarrow>
         card {k. map_get (hexCells (floodFill startCol startRow targetColor fillColor s)) k
                  \<noteq> map_get (hexCells s) k}
         = snd (snd (floodFill_loop (gridSize s) targetColor fillColor (hexCells s) {}
                       [(startCol, startRow)] 0)))
    \<and> (\<forall>k. map_get (hexCells (floodFill startCol startRow targetColor fillColor s)) k
              \<noteq> map_get (hexCells s) k \<longrightarrow>
            map_get (hexCells s) k = targetColor
          \<and> map_get (hexCells (floodFill startCol startRow targetColor fillColor s)) k
              = fill_value fillColor
          \<and> (\<exists>p. target_path (gridSize s) (hexCells s) targetColor (startCol, startRow) k p))"
proof -
  let ?gs = "gridSize s" and ?c0 = "hexCells s" and ?start = "(startCol, startRow)"
  let ?res = "floodFill_loop ?gs targetColor fillColor ?c0 {} [?start] 0"
  let ?after = "hexCells (floodFill startCol startRow targetColor fillColor s)"
  let ?changed = "{k. map_get ?after k \<noteq> map_get ?c0 k}"
  have ff: "floodFill startCol startRow targetColor fillColor s = s\<lparr>hexCells := fst ?res\<rparr>"
    using assms by (simp add: floodFill_def)
  then have after: "?after = fst ?res" by simp
  have init: "fill_inv ?gs ?c0 targetColor fillColor ?start {} ?c0 0"
    by (simp add: fill_inv_def)
  have stack: "\<forall>k. k \<in> set [?start] \<longrightarrow> map_get ?c0 k = targetColor
      \<longrightarrow> (\<exists>p. target_path ?gs ?c0 targetColor ?start k p)"
    using target_path_start [of ?c0 ?start targetColor ?gs] by auto
  from floodFill_loop_inv [OF init _ stack]
  obtain F where F: "fill_inv ?gs ?c0 targetColor fillColor ?start F (fst ?res) (snd (snd ?res))"
    by blast
  note card = fill_inv_card [OF F]
  have get: "map_get ?after k = (if k \<in> F then fill_value fillColor else map_get ?c0 k)" for k
    unfolding after by (rule fill_inv_get [OF F])
  have sub: "?changed \<subseteq> F"
    using get by (auto split: if_splits)
  have fin: "finite ?changed"
    using sub card by (blast intro: finite_subset)
  have le: "card ?changed \<le> snd (snd ?res)"
    using card_mono [OF _ sub] card by simp
  have eq: "card ?changed = snd (snd ?res)" if "fillColor \<noteq> []"
  proof -
    have "fill_value fillColor \<noteq> targetColor"
      using that assms by (auto simp: fill_value_def)
    then have "F \<subseteq> ?changed"
      using get fill_inv_target [OF F] by auto
    with sub have "?changed = F" by blast
    with card show ?thesis by simp
  qed
  have cells: "map_get ?c0 k = targetColor \<and> map_get ?after k = fill_value fillColor
      \<and> (\<exists>p. target_path ?gs ?c0 targetColor ?start k p)"
    if "map_get ?after k \<noteq> map_get ?c0 k" for k
  proof -
    from that sub have "k \<in> F" by blast
    with fill_inv_target [OF F this] get [of k] show ?thesis by simp
  qed
  have cap: "card ?changed \<le> 1000"
    using le card by simp
  show ?thesis
    using ff card fin cap le eq cells by blast
qed

lemma fill_example_loop:
  "floodFill_loop 3 (Some ''#000000'') ''#ff0000''
      [((0, 0), ''#000000''), ((1, 0), ''#000000''), ((2, 2), ''#000000'')] {} [(0, 0)] 0 =
    ([((0, 0), ''#ff0000''), ((1, 0), ''#ff0000''), ((2, 2), ''#000000'')],
     {(2, 0), (2, 1), (1, 1), (1, 0), (0, 1), (0, 0)}, 2)"
  by code_simp

theorem floodFill_bounded_witness:
  "Some ''#000000'' \<noteq> Some ''#ff0000''
   \<and> hexCells (floodFill 0 0 (Some ''#000000'') ''#ff0000'' fill_example)
       = [((0, 0), ''#ff0000''), ((1, 0), ''#ff0000''), ((2, 2), ''#000000'')]
   \<and> card {k. map_get (hexCells (floodFill 0 0 (Some ''#000000'') ''#ff0000'' fill_example)) k
               \<noteq> map_get (hexCells fill_example) k} = 2"
proof -
  have h: "Some ''#000000'' \<noteq> Some ''#ff0000''" by simp
  have g: "gridSize fill_example = 3"
    "hexCells fill_example = [((0, 0), ''#000000''), ((1, 0), ''#000000''), ((2, 2), ''#000000'')]"
    by (simp_all add: fill_example_def STATE_2d_def)
  have ne: "''#ff0000'' \<noteq> []" by simp
  note t = floodFill_bounded [OF h, of 0 0 fill_example]
  from t have 1: "hexCells (floodFill 0 0 (Some ''#000000'') ''#ff0000'' fill_example)
       = [((0, 0), ''#ff0000''), ((1, 0), ''#ff0000''), ((2, 2), ''#000000'')]"
    by (simp add: g fill_example_loop)
  from t ne have c: "card {k. map_get (hexCells (floodFill 0 0 (Some ''#000000'') ''#ff0000'' fill_example)) k
               \<noteq> map_get (hexCells fill_example) k}
      = snd (snd (floodFill_loop (gridSize fill_example) (Some ''#000000'') ''#ff0000''
                    (hexCells fill_example) {} [(0, 0)] 0))"
    by blast
  have v: "snd (snd (floodFill_loop (gridSize fill_example) (Some ''#000000'') ''#ff0000''
                    (hexCells fill_example) {} [(0, 0)] 0)) = 2"
    unfolding g fill_example_loop by simp
  from c v have 2: "card {k. map_get (hexCells (floodFill 0 0 (Some ''#000000'') ''#ff0000'' fill_example)) k
               \<noteq> map_get (hexCells fill_example) k} = 2"
    by (rule trans)
  show ?thesis using h 1 2 by blast
qed

end
